theory Spec2Isabelle
  imports Main "HOL-Library.AList" "HOL-Library.Multiset" "HOL-Library.Sublist"
begin

section \<open>JavaScript values\<close>

text \<open>
  The values the to-do list code stores and passes around are JSON values: every task is
  an object literal, and everything that goes through \<^verbatim>\<open>localStorage\<close> is serialised with
  \<^verbatim>\<open>JSON.stringify\<close>. Numbers are integers here; \<^verbatim>\<open>undefined\<close> is not a value of this
  type but the result \<open>None\<close> of reading a property that is not there. An object is
  the list of its own properties in insertion order.
\<close>

datatype jsval =
    JNull
  | JBool bool
  | JNum int
  | JStr string
  | JArr "jsval list"
  | JObj "(string \<times> jsval) list"

text \<open>ToBoolean, as used by \<^verbatim>\<open>&&\<close>, \<^verbatim>\<open>!\<close>, \<^verbatim>\<open>? :\<close> and \<^verbatim>\<open>if\<close>.\<close>

fun truthy :: "jsval \<Rightarrow> bool" where
  "truthy JNull = False"
| "truthy (JBool b) = b"
| "truthy (JNum n) = (n \<noteq> 0)"
| "truthy (JStr s) = (s \<noteq> [])"
| "truthy (JArr xs) = True"
| "truthy (JObj kvs) = True"

text \<open>Truthiness of the result of a property read; \<^verbatim>\<open>undefined\<close> is falsy.\<close>

fun truthy_opt :: "jsval option \<Rightarrow> bool" where
  "truthy_opt None = False"
| "truthy_opt (Some v) = truthy v"

text \<open>
  \<^verbatim>\<open>v.k\<close> for the property names the sources read (\<^verbatim>\<open>id\<close>, \<^verbatim>\<open>text\<close>, \<^verbatim>\<open>priority\<close>,
  \<^verbatim>\<open>completed\<close>, \<^verbatim>\<open>createdAt\<close>, ...): only an object can have them. Every read of the
  sources on a possibly-null value is guarded by a truthiness test.
\<close>

fun getprop :: "jsval \<Rightarrow> string \<Rightarrow> jsval option" where
  "getprop (JObj kvs) k = map_of kvs k"
| "getprop _ k = None"

text \<open>\<^verbatim>\<open>typeof x === 'string'\<close>\<close>

fun is_string :: "jsval option \<Rightarrow> bool" where
  "is_string (Some (JStr s)) = True"
| "is_string _ = False"

text \<open>
  Object spread \<^verbatim>\<open>{ ...a, ...b }\<close>: the properties of \<open>b\<close> are assigned, in order, onto a
  copy of \<open>a\<close>; an existing key keeps its position, a new key goes to the end.
\<close>

definition spread :: "(string \<times> jsval) list \<Rightarrow> (string \<times> jsval) list \<Rightarrow> (string \<times> jsval) list" where
  "spread a b = foldl (\<lambda>acc kv. AList.update (fst kv) (snd kv) acc) a b"

section \<open>Strings\<close>

text \<open>
  A \<open>char\<close> stands for a code unit below 256. White space, as recognised by
  \<^verbatim>\<open>String.prototype.trim\<close> and by the regular expression class \<^verbatim>\<open>\s\<close>: tab, line feed,
  vertical tab, form feed, carriage return, space and no-break space.
\<close>

definition is_space :: "char \<Rightarrow> bool" where
  "is_space c \<longleftrightarrow> c \<in> set [CHR 0x09, CHR 0x0A, CHR 0x0B, CHR 0x0C, CHR 0x0D, CHR 0x20, CHR 0xA0]"

definition trim :: "string \<Rightarrow> string" where
  "trim s = rev (dropWhile is_space (rev (dropWhile is_space s)))"

section \<open>localStorage\<close>

text \<open>
  A stored string is represented by what \<^verbatim>\<open>JSON.parse\<close> makes of it: the text of a JSON
  value (which \<^verbatim>\<open>JSON.stringify\<close> writes and \<^verbatim>\<open>JSON.parse\<close> reads back), the empty string,
  or any other text that is not JSON.
\<close>

datatype raw = JsonText jsval | EmptyText | Garbage

datatype error = SecurityError | QuotaExceededError | SyntaxError | TypeError

text \<open>
  The backing store: its entries, whether access to it is denied altogether (storage
  disabled or sandboxed: every call throws), and which writes it accepts (a refused
  write throws the quota error and leaves the entries as they were).
\<close>

record localStorage =
  entries :: "string \<Rightarrow> raw option"
  denied :: bool
  accepts :: "string \<Rightarrow> raw \<Rightarrow> bool"

definition getItem :: "localStorage \<Rightarrow> string \<Rightarrow> error + raw option" where
  "getItem ls k = (if denied ls then Inl SecurityError else Inr (entries ls k))"

definition setItem :: "localStorage \<Rightarrow> string \<Rightarrow> raw \<Rightarrow> error + localStorage" where
  "setItem ls k v =
     (if denied ls then Inl SecurityError
      else if \<not> accepts ls k v then Inl QuotaExceededError
      else Inr (ls\<lparr>entries := (entries ls)(k \<mapsto> v)\<rparr>))"

definition removeItem :: "localStorage \<Rightarrow> string \<Rightarrow> error + localStorage" where
  "removeItem ls k =
     (if denied ls then Inl SecurityError
      else Inr (ls\<lparr>entries := (entries ls)(k := None)\<rparr>))"

text \<open>
  \<^verbatim>\<open>JSON.parse(raw)\<close> on what \<^verbatim>\<open>getItem\<close> returned. The argument is converted to a string
  first, so \<^verbatim>\<open>null\<close> (no entry) is parsed as the text \<^verbatim>\<open>null\<close> and yields the value null.
\<close>

fun JSON_parse :: "raw option \<Rightarrow> error + jsval" where
  "JSON_parse None = Inr JNull"
| "JSON_parse (Some (JsonText v)) = Inr v"
| "JSON_parse (Some EmptyText) = Inl SyntaxError"
| "JSON_parse (Some Garbage) = Inl SyntaxError"

section \<open>storage.js: the namespaced wrapper\<close>

definition NAMESPACE :: string where
  "NAMESPACE = ''zen-tasker''"

text \<open>\<^verbatim>\<open>try { return JSON.parse(raw); } catch { return fallback; }\<close>\<close>

definition safeJSON_parse :: "raw option \<Rightarrow> jsval \<Rightarrow> jsval" where
  "safeJSON_parse r fallback = (case JSON_parse r of Inl e \<Rightarrow> fallback | Inr v \<Rightarrow> v)"

definition storage_get :: "localStorage \<Rightarrow> string \<Rightarrow> jsval \<Rightarrow> error + jsval" where
  "storage_get ls key fallback =
     (case getItem ls (NAMESPACE @ '':'' @ key) of
        Inl e \<Rightarrow> Inl e
      | Inr r \<Rightarrow> Inr (safeJSON_parse r fallback))"

definition storage_set :: "localStorage \<Rightarrow> string \<Rightarrow> jsval \<Rightarrow> error + localStorage" where
  "storage_set ls key v = setItem ls (NAMESPACE @ '':'' @ key) (JsonText v)"

section \<open>filters.js and store.js: the minimal store\<close>

record task =
  task_id :: string
  title :: string
  completed :: bool

record state =
  tasks :: "task list"
  filter_of :: string

text \<open>\<^verbatim>\<open>byFilter\<close>: \<^verbatim>\<open>Filters.Active\<close> is \<^verbatim>\<open>"active"\<close>, \<^verbatim>\<open>Filters.Completed\<close> is \<^verbatim>\<open>"completed"\<close>;
  \<^verbatim>\<open>Filters.All\<close> and every other string fall to the default branch.\<close>

definition byFilter :: "string \<Rightarrow> task \<Rightarrow> bool" where
  "byFilter f t =
     (if f = ''active'' then \<not> completed t
      else if f = ''completed'' then completed t
      else True)"

definition KEY :: string where
  "KEY = ''state''"

text \<open>The state as the object \<^verbatim>\<open>JSON.stringify\<close> sees.\<close>

definition task_json :: "task \<Rightarrow> jsval" where
  "task_json t = JObj [(''id'', JStr (task_id t)), (''title'', JStr (title t)), (''completed'', JBool (completed t))]"

definition state_json :: "state \<Rightarrow> jsval" where
  "state_json s = JObj [(''tasks'', JArr (map task_json (tasks s))), (''filter'', JStr (filter_of s))]"

definition initial :: state where
  "initial = \<lparr>tasks = [], filter_of = ''all''\<rparr>"

text \<open>\<^verbatim>\<open>let state = storage.get(KEY, initial)\<close>: the value the module starts with.\<close>

definition Store_load :: "localStorage \<Rightarrow> error + jsval" where
  "Store_load ls = storage_get ls KEY (state_json initial)"

text \<open>
  Every operation works on the module variable \<^verbatim>\<open>state\<close> and on the backing store; both
  are returned, together with what the call gives the caller: \<open>Inl e\<close> when the exception
  \<open>e\<close> leaves the call, \<open>Inr r\<close> when it returns \<open>r\<close>. An assignment made before an
  exception stays made.
\<close>

definition persist :: "state \<Rightarrow> localStorage \<Rightarrow> error + localStorage" where
  "persist s ls = storage_set ls KEY (state_json s)"

definition Store_visible :: "state \<Rightarrow> task list" where
  "Store_visible s = filter (byFilter (filter_of s)) (tasks s)"

text \<open>\<^verbatim>\<open>add(title)\<close>; \<open>u\<close> is the value \<^verbatim>\<open>crypto.randomUUID()\<close> returns in this call.
  \<open>Inr None\<close> is the bare \<^verbatim>\<open>return\<close> on an empty title.\<close>

definition Store_add :: "string \<Rightarrow> string \<Rightarrow> state \<Rightarrow> localStorage \<Rightarrow> (error + task option) \<times> state \<times> localStorage" where
  "Store_add u ttl s ls =
     (let t = \<lparr>task_id = u, title = trim ttl, completed = False\<rparr> in
      if title t = [] then (Inr None, s, ls)
      else
        let s' = s\<lparr>tasks := t # tasks s\<rparr> in
        case persist s' ls of
          Inl e \<Rightarrow> (Inl e, s', ls)
        | Inr ls' \<Rightarrow> (Inr (Some t), s', ls'))"

text \<open>\<^verbatim>\<open>toggle(id)\<close>: \<^verbatim>\<open>find\<close> gives the first task with that id, which is flipped in place.\<close>

fun toggle_first :: "string \<Rightarrow> task list \<Rightarrow> task list option" where
  "toggle_first i [] = None"
| "toggle_first i (t # ts) =
     (if task_id t = i then Some (t\<lparr>completed := \<not> completed t\<rparr> # ts)
      else map_option ((#) t) (toggle_first i ts))"

definition Store_toggle :: "string \<Rightarrow> state \<Rightarrow> localStorage \<Rightarrow> (error + unit) \<times> state \<times> localStorage" where
  "Store_toggle i s ls =
     (case toggle_first i (tasks s) of
        None \<Rightarrow> (Inr (), s, ls)
      | Some ts' \<Rightarrow>
          let s' = s\<lparr>tasks := ts'\<rparr> in
          (case persist s' ls of
             Inl e \<Rightarrow> (Inl e, s', ls)
           | Inr ls' \<Rightarrow> (Inr (), s', ls')))"

definition Store_remove :: "string \<Rightarrow> state \<Rightarrow> localStorage \<Rightarrow> (error + unit) \<times> state \<times> localStorage" where
  "Store_remove i s ls =
     (let s' = s\<lparr>tasks := filter (\<lambda>t. task_id t \<noteq> i) (tasks s)\<rparr> in
      case persist s' ls of
        Inl e \<Rightarrow> (Inl e, s', ls)
      | Inr ls' \<Rightarrow> (Inr (), s', ls'))"

definition Store_setFilter :: "string \<Rightarrow> state \<Rightarrow> localStorage \<Rightarrow> (error + unit) \<times> state \<times> localStorage" where
  "Store_setFilter f s ls =
     (let s' = s\<lparr>filter_of := f\<rparr> in
      case persist s' ls of
        Inl e \<Rightarrow> (Inl e, s', ls)
      | Inr ls' \<Rightarrow> (Inr (), s', ls'))"

text \<open>A backing store with no entries that accepts every write, and one whose quota is
  used up.\<close>

definition empty_store :: localStorage where
  "empty_store = \<lparr>entries = (\<lambda>k. None), denied = False, accepts = (\<lambda>k v. True)\<rparr>"

definition full_store :: localStorage where
  "full_store = \<lparr>entries = (\<lambda>k. None), denied = False, accepts = (\<lambda>k v. False)\<rparr>"

definition denied_store :: localStorage where
  "denied_store = \<lparr>entries = (\<lambda>k. None), denied = True, accepts = (\<lambda>k v. True)\<rparr>"

section \<open>app.js: the single-file to-do list\<close>

record app_task =
  a_id :: string
  description :: string
  a_completed :: bool

definition STORAGE_KEY :: string where
  "STORAGE_KEY = ''zenTaskerTasks''"

definition app_task_json :: "app_task \<Rightarrow> jsval" where
  "app_task_json t =
     JObj [(''id'', JStr (a_id t)), (''description'', JStr (description t)), (''completed'', JBool (a_completed t))]"

text \<open>\<^verbatim>\<open>saveTasks\<close> of app.js: the exception of \<^verbatim>\<open>setItem\<close> is not caught.\<close>

definition app_saveTasks :: "app_task list \<Rightarrow> localStorage \<Rightarrow> error + localStorage" where
  "app_saveTasks ts ls = setItem ls STORAGE_KEY (JsonText (JArr (map app_task_json ts)))"

text \<open>Decimal digits of a natural number, as a template literal prints it.\<close>

definition digit_char :: "nat \<Rightarrow> char" where
  "digit_char d = ''0123456789'' ! d"

function dec :: "nat \<Rightarrow> string" where
  "dec n = (if n < 10 then [digit_char n] else dec (n div 10) @ [digit_char (n mod 10)])"
  by pat_completeness auto
termination
  by (relation "measure (\<lambda>n. n)") auto

declare dec.simps [simp del]

text \<open>The number a string of decimal digits denotes.\<close>

definition undec :: "string \<Rightarrow> nat" where
  "undec s = foldl (\<lambda>acc c. 10 * acc + (of_char c - 48)) 0 s"


datatype add_outcome = Alerted | Added

text \<open>
  \<^verbatim>\<open>addTask(description)\<close>; \<open>now\<close> is what \<^verbatim>\<open>Date.now()\<close> returns in this call and \<open>r\<close>
  is \<^verbatim>\<open>Math.floor(Math.random() * 1000)\<close>. Rendering is not part of the model.
\<close>

definition addTask :: "nat \<Rightarrow> nat \<Rightarrow> string \<Rightarrow> app_task list \<Rightarrow> localStorage \<Rightarrow> (error + add_outcome) \<times> app_task list \<times> localStorage" where
  "addTask now r descr ts ls =
     (let descTrimmed = trim descr in
      if descTrimmed = [] then (Inr Alerted, ts, ls)
      else
        let newTask = \<lparr>a_id = dec now @ ''-'' @ dec r, description = descTrimmed, a_completed = False\<rparr>;
            ts' = ts @ [newTask]
        in case app_saveTasks ts' ls of
             Inl e \<Rightarrow> (Inl e, ts', ls)
           | Inr ls' \<Rightarrow> (Inr Added, ts', ls'))"

text \<open>A sequence of \<^verbatim>\<open>addTask\<close> calls, each with its clock value, random draw and input text.
  Each call is its own event handler, so an exception in one does not stop the next.\<close>

fun addTasks :: "(nat \<times> nat \<times> string) list \<Rightarrow> app_task list \<Rightarrow> localStorage \<Rightarrow> app_task list \<times> localStorage" where
  "addTasks [] ts ls = (ts, ls)"
| "addTasks ((now, r, d) # cs) ts ls =
     (case addTask now r d ts ls of (res, ts', ls') \<Rightarrow> addTasks cs ts' ls')"

text \<open>The same for \<^verbatim>\<open>Store.add\<close>, each call with the UUID drawn in it.\<close>

fun Store_adds :: "(string \<times> string) list \<Rightarrow> state \<Rightarrow> localStorage \<Rightarrow> state \<times> localStorage" where
  "Store_adds [] s ls = (s, ls)"
| "Store_adds ((u, ttl) # cs) s ls =
     (case Store_add u ttl s ls of (res, s', ls') \<Rightarrow> Store_adds cs s' ls')"


section \<open>ZenStorage: the guarded storage manager\<close>

text \<open>
  Where a method of this class has the name of a function of app.js or of a method of the
  task manager, the one of this class is prefixed \<open>zs_\<close> and the one of the task manager
  \<open>tm_\<close>.
\<close>

record ZenStorage =
  storageKey :: string
  settingsKey :: string
  isStorageAvailable :: bool

text \<open>The probe writes the string \<^verbatim>\<open>__storage_test__\<close>, which is not JSON text, and removes it.\<close>

definition checkStorageAvailability :: "localStorage \<Rightarrow> bool \<times> localStorage" where
  "checkStorageAvailability ls =
     (case setItem ls ''__storage_test__'' Garbage of
        Inl e \<Rightarrow> (False, ls)
      | Inr ls1 \<Rightarrow>
          (case removeItem ls1 ''__storage_test__'' of
             Inl e \<Rightarrow> (False, ls1)
           | Inr ls2 \<Rightarrow> (True, ls2)))"

text \<open>The constructor. No method assigns \<^verbatim>\<open>isStorageAvailable\<close> afterwards, so the methods
  below take the object and return only the backing store.\<close>

definition ZenStorage_new :: "localStorage \<Rightarrow> ZenStorage \<times> localStorage" where
  "ZenStorage_new ls =
     (case checkStorageAvailability ls of
        (b, ls') \<Rightarrow>
          (\<lparr>storageKey = ''zenTasker_tasks'', settingsKey = ''zenTasker_settings'',
            isStorageAvailable = b\<rparr>, ls'))"

text \<open>Truthiness of what \<^verbatim>\<open>getItem\<close> returned: null and the empty string are falsy.\<close>

fun raw_truthy :: "raw option \<Rightarrow> bool" where
  "raw_truthy None = False"
| "raw_truthy (Some EmptyText) = False"
| "raw_truthy (Some _) = True"

text \<open>The shape check of \<^verbatim>\<open>getTasks\<close>:
  \<^verbatim>\<open>task && typeof task.id === 'string' && typeof task.text === 'string'\<close>\<close>

definition get_valid :: "jsval \<Rightarrow> bool" where
  "get_valid t \<longleftrightarrow> truthy t \<and> is_string (getprop t ''id'') \<and> is_string (getprop t ''text'')"

text \<open>The shape check of \<^verbatim>\<open>saveTasks\<close>:
  \<^verbatim>\<open>task && task.id && task.text && typeof task.text === 'string'\<close>\<close>

definition save_valid :: "jsval \<Rightarrow> bool" where
  "save_valid t \<longleftrightarrow>
     truthy t \<and> truthy_opt (getprop t ''id'') \<and> truthy_opt (getprop t ''text'')
     \<and> is_string (getprop t ''text'')"

text \<open>
  \<^verbatim>\<open>getTasks\<close>. Everything after the availability test is inside \<^verbatim>\<open>try\<close>: an exception of
  \<^verbatim>\<open>getItem\<close> or \<^verbatim>\<open>JSON.parse\<close>, and the TypeError of \<^verbatim>\<open>tasks.filter\<close> when the parsed value
  is not an array, all end in \<^verbatim>\<open>return []\<close>.
\<close>

definition getTasks :: "ZenStorage \<Rightarrow> localStorage \<Rightarrow> jsval list" where
  "getTasks zs ls =
     (if \<not> isStorageAvailable zs then []
      else case getItem ls (storageKey zs) of
        Inl e \<Rightarrow> []
      | Inr tasksJson \<Rightarrow>
          (case (if raw_truthy tasksJson then JSON_parse tasksJson else Inr (JArr [])) of
             Inl e \<Rightarrow> []
           | Inr (JArr ts) \<Rightarrow> filter get_valid ts
           | Inr _ \<Rightarrow> []))"

definition saveTasks :: "ZenStorage \<Rightarrow> localStorage \<Rightarrow> jsval list \<Rightarrow> bool \<times> localStorage" where
  "saveTasks zs ls ts =
     (if \<not> isStorageAvailable zs then (False, ls)
      else
        let validTasks = filter save_valid ts in
        case setItem ls (storageKey zs) (JsonText (JArr validTasks)) of
          Inl e \<Rightarrow> (False, ls)
        | Inr ls' \<Rightarrow> (True, ls'))"

text \<open>
  The write \<^verbatim>\<open>saveTasks\<close> makes for an array fails: the store was found unavailable by the
  constructor, so that no write is attempted, or \<^verbatim>\<open>setItem\<close> of the serialised valid records
  throws.
\<close>

definition write_fails :: "ZenStorage \<Rightarrow> localStorage \<Rightarrow> jsval list \<Rightarrow> bool" where
  "write_fails zs ls ts \<longleftrightarrow>
     \<not> isStorageAvailable zs
     \<or> (case setItem ls (storageKey zs) (JsonText (JArr (filter save_valid ts))) of
          Inl e \<Rightarrow> True
        | Inr ls' \<Rightarrow> False)"

definition zs_addTask :: "ZenStorage \<Rightarrow> localStorage \<Rightarrow> jsval \<Rightarrow> bool \<times> localStorage" where
  "zs_addTask zs ls t = saveTasks zs ls (getTasks zs ls @ [t])"

text \<open>\<^verbatim>\<open>findIndex\<close>: the first position where the predicate holds; \<open>None\<close> stands for -1.\<close>

fun findIndex :: "('a \<Rightarrow> bool) \<Rightarrow> 'a list \<Rightarrow> nat option" where
  "findIndex P [] = None"
| "findIndex P (x # xs) = (if P x then Some 0 else map_option Suc (findIndex P xs))"

text \<open>The own enumerable properties a spread copies: those of an object, the indexed
  elements of an array, the indexed characters of a string, none of any other value.\<close>

fun own_props :: "jsval \<Rightarrow> (string \<times> jsval) list" where
  "own_props (JObj kvs) = kvs"
| "own_props (JArr xs) = zip (map dec [0..<length xs]) xs"
| "own_props (JStr s) = zip (map dec [0..<length s]) (map (\<lambda>c. JStr [c]) s)"
| "own_props _ = []"

text \<open>
  \<^verbatim>\<open>updateTask(taskId, updates)\<close> of ZenStorage. \<open>updated_tasks\<close> is the array after the
  assignment \<^verbatim>\<open>tasks[taskIndex] = { ...tasks[taskIndex], ...updates, id: taskId }\<close>, or \<open>None\<close>
  when no task has the id; \<open>zs_updateTask\<close> is the whole method.
\<close>

definition updated_tasks :: "ZenStorage \<Rightarrow> localStorage \<Rightarrow> string \<Rightarrow> (string \<times> jsval) list \<Rightarrow> jsval list option" where
  "updated_tasks zs ls taskId updates =
     (let ts = getTasks zs ls in
      case findIndex (\<lambda>t. getprop t ''id'' = Some (JStr taskId)) ts of
        None \<Rightarrow> None
      | Some taskIndex \<Rightarrow>
          Some (ts[taskIndex :=
                  JObj (AList.update ''id'' (JStr taskId) (spread (own_props (ts ! taskIndex)) updates))]))"

definition zs_updateTask :: "ZenStorage \<Rightarrow> localStorage \<Rightarrow> string \<Rightarrow> (string \<times> jsval) list \<Rightarrow> bool \<times> localStorage" where
  "zs_updateTask zs ls taskId updates =
     (case updated_tasks zs ls taskId updates of
        None \<Rightarrow> (False, ls)
      | Some ts \<Rightarrow> saveTasks zs ls ts)"

definition zs_deleteTask :: "ZenStorage \<Rightarrow> localStorage \<Rightarrow> string \<Rightarrow> bool \<times> localStorage" where
  "zs_deleteTask zs ls taskId =
     saveTasks zs ls (filter (\<lambda>t. getprop t ''id'' \<noteq> Some (JStr taskId)) (getTasks zs ls))"

definition getDefaultSettings :: "(string \<times> jsval) list" where
  "getDefaultSettings =
     [(''theme'', JStr ''zen''), (''defaultPriority'', JStr ''medium''), (''autoSort'', JBool True),
      (''showCompletedTasks'', JBool True), (''soundEnabled'', JBool False),
      (''animationsEnabled'', JBool True)]"

definition getSettings :: "ZenStorage \<Rightarrow> localStorage \<Rightarrow> (string \<times> jsval) list" where
  "getSettings zs ls =
     (if \<not> isStorageAvailable zs then getDefaultSettings
      else case getItem ls (settingsKey zs) of
        Inl e \<Rightarrow> getDefaultSettings
      | Inr settingsJson \<Rightarrow>
          (case (if raw_truthy settingsJson then JSON_parse settingsJson else Inr (JObj [])) of
             Inl e \<Rightarrow> getDefaultSettings
           | Inr settings \<Rightarrow> spread getDefaultSettings (own_props settings)))"

definition saveSettings :: "ZenStorage \<Rightarrow> localStorage \<Rightarrow> jsval \<Rightarrow> bool \<times> localStorage" where
  "saveSettings zs ls settings =
     (if \<not> isStorageAvailable zs then (False, ls)
      else case setItem ls (settingsKey zs) (JsonText settings) of
        Inl e \<Rightarrow> (False, ls)
      | Inr ls' \<Rightarrow> (True, ls'))"

text \<open>\<^verbatim>\<open>clearAll\<close>: when the second removal throws, the first has been done.\<close>

definition clearAll :: "ZenStorage \<Rightarrow> localStorage \<Rightarrow> bool \<times> localStorage" where
  "clearAll zs ls =
     (if \<not> isStorageAvailable zs then (False, ls)
      else case removeItem ls (storageKey zs) of
        Inl e \<Rightarrow> (False, ls)
      | Inr ls1 \<Rightarrow>
          (case removeItem ls1 (settingsKey zs) of
             Inl e \<Rightarrow> (False, ls1)
           | Inr ls2 \<Rightarrow> (True, ls2)))"


text \<open>Whether the availability probe of the constructor throws.\<close>

definition probe_throws :: "localStorage \<Rightarrow> bool" where
  "probe_throws ls \<longleftrightarrow>
     (case setItem ls ''__storage_test__'' Garbage of
        Inl e \<Rightarrow> True
      | Inr ls1 \<Rightarrow> (case removeItem ls1 ''__storage_test__'' of Inl e \<Rightarrow> True | Inr ls2 \<Rightarrow> False))"

text \<open>A storage manager whose probe succeeded, and a backing store holding a task array.\<close>

definition zs_ok :: ZenStorage where
  "zs_ok = \<lparr>storageKey = ''zenTasker_tasks'', settingsKey = ''zenTasker_settings'', isStorageAvailable = True\<rparr>"

definition stored :: "jsval list \<Rightarrow> localStorage" where
  "stored ts = empty_store\<lparr>entries := (entries empty_store)(''zenTasker_tasks'' \<mapsto> JsonText (JArr ts))\<rparr>"

text \<open>A backing store with room for the empty array only: it refuses every other write.\<close>

definition picky_store :: localStorage where
  "picky_store = \<lparr>entries = (\<lambda>k. None), denied = False, accepts = (\<lambda>k v. v = JsonText (JArr []))\<rparr>"


section \<open>ZenTaskManager: validated operations on the in-memory collection\<close>

text \<open>\<^verbatim>\<open>replace(/\s+/g, ' ')\<close>: every run of white space becomes one space.\<close>

function collapse_ws :: "string \<Rightarrow> string" where
  "collapse_ws [] = []"
| "collapse_ws (c # cs) =
     (if is_space c then CHR '' '' # collapse_ws (dropWhile is_space cs) else c # collapse_ws cs)"
  by pat_completeness auto
termination
  by (relation "measure length") (auto simp: length_dropWhile_le less_Suc_eq_le)

definition validateTaskText :: "jsval \<Rightarrow> string option" where
  "validateTaskText text =
     (case text of
        JStr s \<Rightarrow>
          (let trimmed = trim s in
           if length trimmed = 0 \<or> length trimmed > 500 then None
           else Some (collapse_ws trimmed))
      | _ \<Rightarrow> None)"

definition validatePriority :: "jsval \<Rightarrow> string" where
  "validatePriority priority =
     (if priority \<in> set [JStr ''low'', JStr ''medium'', JStr ''high'']
      then (case priority of JStr p \<Rightarrow> p | _ \<Rightarrow> ''medium'')
      else ''medium'')"

text \<open>\<^verbatim>\<open>generateId\<close>: \<open>now\<close> is \<^verbatim>\<open>Date.now()\<close> and \<open>rnd\<close> the base-36 digits taken from
  \<^verbatim>\<open>Math.random()\<close>.\<close>

definition generateId :: "nat \<Rightarrow> string \<Rightarrow> string" where
  "generateId now rnd = ''task_'' @ dec now @ ''_'' @ rnd"

text \<open>
  The manager: its task array, filter and settings, and the names of the events it has
  passed to \<^verbatim>\<open>notifyObservers\<close>, oldest first. The observers and the payloads of the events
  are outside the model.
\<close>

record ZenTaskManager =
  tm_tasks :: "jsval list"
  currentFilter :: string
  settings :: "(string \<times> jsval) list"
  notified :: "string list"

definition notifyObservers :: "string \<Rightarrow> ZenTaskManager \<Rightarrow> ZenTaskManager" where
  "notifyObservers event tm = tm\<lparr>notified := notified tm @ [event]\<rparr>"

text \<open>
  \<^verbatim>\<open>createTask(text, priority = 'medium')\<close>; \<open>created\<close> and \<open>updated\<close> are the two
  \<^verbatim>\<open>new Date().toISOString()\<close> readings. The result \<open>None\<close> is \<^verbatim>\<open>null\<close>.
\<close>

definition createTask :: "nat \<Rightarrow> string \<Rightarrow> string \<Rightarrow> string \<Rightarrow> jsval \<Rightarrow> jsval option \<Rightarrow> ZenStorage \<Rightarrow> ZenTaskManager \<Rightarrow> localStorage \<Rightarrow> jsval option \<times> ZenTaskManager \<times> localStorage" where
  "createTask now rnd created updated text priority zs tm ls =
     (case validateTaskText text of
        None \<Rightarrow> (None, notifyObservers ''error'' tm, ls)
      | Some validatedText \<Rightarrow>
          if validatedText = [] then (None, notifyObservers ''error'' tm, ls)
          else
            let validatedPriority = validatePriority (case priority of None \<Rightarrow> JStr ''medium'' | Some p \<Rightarrow> p);
                newId = generateId now rnd;
                task = JObj [(''id'', JStr newId), (''text'', JStr validatedText),
                             (''priority'', JStr validatedPriority), (''completed'', JBool False),
                             (''createdAt'', JStr created), (''updatedAt'', JStr updated),
                             (''completedAt'', JNull)];
                tm1 = tm\<lparr>tm_tasks := tm_tasks tm @ [task]\<rparr>
            in case zs_addTask zs ls task of
                 (False, ls') \<Rightarrow>
                   (None,
                    notifyObservers ''error''
                      (tm1\<lparr>tm_tasks := filter (\<lambda>t. getprop t ''id'' \<noteq> Some (JStr newId)) (tm_tasks tm1)\<rparr>),
                    ls')
               | (True, ls') \<Rightarrow>
                   (Some task, notifyObservers ''tasksUpdated'' (notifyObservers ''taskCreated'' tm1), ls'))"

text \<open>The task object \<^verbatim>\<open>createTask\<close> builds from the validated text.\<close>

definition created_task :: "nat \<Rightarrow> string \<Rightarrow> string \<Rightarrow> string \<Rightarrow> string \<Rightarrow> jsval option \<Rightarrow> jsval" where
  "created_task now rnd created updated validatedText priority =
     JObj [(''id'', JStr (generateId now rnd)), (''text'', JStr validatedText),
           (''priority'', JStr (validatePriority (case priority of None \<Rightarrow> JStr ''medium'' | Some p \<Rightarrow> p))),
           (''completed'', JBool False), (''createdAt'', JStr created), (''updatedAt'', JStr updated),
           (''completedAt'', JNull)]"

text \<open>\<^verbatim>\<open>a !== b\<close> is \<open>\<not> strict_eq a b\<close>. Primitive values are compared by value; an object or
  array handed in by a caller is taken to be a different reference from any stored one.\<close>

fun strict_eq :: "jsval option \<Rightarrow> jsval option \<Rightarrow> bool" where
  "strict_eq None None = True"
| "strict_eq (Some JNull) (Some JNull) = True"
| "strict_eq (Some (JBool a)) (Some (JBool b)) = (a = b)"
| "strict_eq (Some (JNum a)) (Some (JNum b)) = (a = b)"
| "strict_eq (Some (JStr a)) (Some (JStr b)) = (a = b)"
| "strict_eq _ _ = False"

text \<open>
  \<^verbatim>\<open>updateTask(taskId, updates)\<close> of the manager; \<open>nowU\<close> is the time written to
  \<^verbatim>\<open>updatedAt\<close> and \<open>nowC\<close> the one written to \<^verbatim>\<open>completedAt\<close>. A property of \<open>updates\<close> is
  \<^verbatim>\<open>!== undefined\<close> exactly when it is present. \<open>build_updatedTask\<close> is the object
  \<^verbatim>\<open>updatedTask\<close> as it stands before it is put into the array, or \<open>None\<close> when the new text
  is rejected; \<open>tm_updateTask\<close> is the whole method.
\<close>

definition build_updatedTask :: "string \<Rightarrow> string \<Rightarrow> string \<Rightarrow> jsval \<Rightarrow> (string \<times> jsval) list \<Rightarrow> (string \<times> jsval) list option" where
  "build_updatedTask nowU nowC taskId currentTask updates =
     (let updatedTask0 =
            AList.update ''updatedAt'' (JStr nowU)
              (AList.update ''id'' (JStr taskId) (spread (own_props currentTask) updates))
      in case (case map_of updates ''text'' of
                 None \<Rightarrow> Some updatedTask0
               | Some tv \<Rightarrow>
                   (case validateTaskText tv of
                      None \<Rightarrow> None
                    | Some validatedText \<Rightarrow>
                        if validatedText = [] then None
                        else Some (AList.update ''text'' (JStr validatedText) updatedTask0))) of
           None \<Rightarrow> None
         | Some updatedTask1 \<Rightarrow>
             let updatedTask2 =
                   (case map_of updates ''priority'' of
                      None \<Rightarrow> updatedTask1
                    | Some p \<Rightarrow> AList.update ''priority'' (JStr (validatePriority p)) updatedTask1)
             in Some (case map_of updates ''completed'' of
                        None \<Rightarrow> updatedTask2
                      | Some c \<Rightarrow>
                          if \<not> strict_eq (Some c) (getprop currentTask ''completed'')
                          then AList.update ''completedAt'' (if truthy c then JStr nowC else JNull) updatedTask2
                          else updatedTask2))"

definition tm_updateTask :: "string \<Rightarrow> string \<Rightarrow> string \<Rightarrow> (string \<times> jsval) list \<Rightarrow> ZenStorage \<Rightarrow> ZenTaskManager \<Rightarrow> localStorage \<Rightarrow> bool \<times> ZenTaskManager \<times> localStorage" where
  "tm_updateTask nowU nowC taskId updates zs tm ls =
     (case findIndex (\<lambda>t. getprop t ''id'' = Some (JStr taskId)) (tm_tasks tm) of
        None \<Rightarrow> (False, notifyObservers ''error'' tm, ls)
      | Some taskIndex \<Rightarrow>
          let currentTask = tm_tasks tm ! taskIndex in
          case build_updatedTask nowU nowC taskId currentTask updates of
            None \<Rightarrow> (False, notifyObservers ''error'' tm, ls)
          | Some updatedTask \<Rightarrow>
              let tm1 = tm\<lparr>tm_tasks := (tm_tasks tm)[taskIndex := JObj updatedTask]\<rparr>
              in case zs_updateTask zs ls taskId updatedTask of
                   (False, ls') \<Rightarrow>
                     (False,
                      notifyObservers ''error'' (tm1\<lparr>tm_tasks := (tm_tasks tm1)[taskIndex := currentTask]\<rparr>),
                      ls')
                 | (True, ls') \<Rightarrow>
                     (True, notifyObservers ''tasksUpdated'' (notifyObservers ''taskUpdated'' tm1), ls'))"

text \<open>\<^verbatim>\<open>deleteTask(taskId)\<close>; \<^verbatim>\<open>splice(taskIndex, 0, deletedTask)\<close> puts the task back at its
  index in the filtered array.\<close>

definition tm_deleteTask :: "string \<Rightarrow> ZenStorage \<Rightarrow> ZenTaskManager \<Rightarrow> localStorage \<Rightarrow> bool \<times> ZenTaskManager \<times> localStorage" where
  "tm_deleteTask taskId zs tm ls =
     (case findIndex (\<lambda>t. getprop t ''id'' = Some (JStr taskId)) (tm_tasks tm) of
        None \<Rightarrow> (False, notifyObservers ''error'' tm, ls)
      | Some taskIndex \<Rightarrow>
          let deletedTask = tm_tasks tm ! taskIndex;
              remaining = filter (\<lambda>t. getprop t ''id'' \<noteq> Some (JStr taskId)) (tm_tasks tm)
          in case zs_deleteTask zs ls taskId of
               (False, ls') \<Rightarrow>
                 (False,
                  notifyObservers ''error''
                    (tm\<lparr>tm_tasks := take taskIndex remaining @ [deletedTask] @ drop taskIndex remaining\<rparr>),
                  ls')
             | (True, ls') \<Rightarrow>
                 (True,
                  notifyObservers ''tasksUpdated'' (notifyObservers ''taskDeleted'' (tm\<lparr>tm_tasks := remaining\<rparr>)),
                  ls'))"

text \<open>\<^verbatim>\<open>toggleTask(taskId)\<close>: \<^verbatim>\<open>getTaskById\<close> is the first task with the id.\<close>

definition toggleTask :: "string \<Rightarrow> string \<Rightarrow> string \<Rightarrow> ZenStorage \<Rightarrow> ZenTaskManager \<Rightarrow> localStorage \<Rightarrow> bool \<times> ZenTaskManager \<times> localStorage" where
  "toggleTask nowU nowC taskId zs tm ls =
     (case find (\<lambda>t. getprop t ''id'' = Some (JStr taskId)) (tm_tasks tm) of
        None \<Rightarrow> (False, tm, ls)
      | Some task \<Rightarrow>
          tm_updateTask nowU nowC taskId
            [(''completed'', JBool (\<not> truthy_opt (getprop task ''completed'')))] zs tm ls)"


text \<open>A manager with no tasks, and a task as \<^verbatim>\<open>createTask\<close> builds it.\<close>

definition tm0 :: ZenTaskManager where
  "tm0 = \<lparr>tm_tasks = [], currentFilter = ''all'', settings = [], notified = []\<rparr>"

definition milk :: jsval where
  "milk = JObj [(''id'', JStr ''task_5_abc''), (''text'', JStr ''Buy milk''), (''priority'', JStr ''low''),
                (''completed'', JBool False), (''createdAt'', JStr ''t1''), (''updatedAt'', JStr ''t1''),
                (''completedAt'', JNull)]"


section \<open>ZenFilterManager: search\<close>

text \<open>
  \<^verbatim>\<open>toLowerCase\<close> on code units below 256: the letters A to Z and the accented capitals
  (0xC0 to 0xDE without the multiplication sign 0xD7) move up by 32.
\<close>

definition lower_char :: "char \<Rightarrow> char" where
  "lower_char c =
     (let n = (of_char c :: nat) in
      if (65 \<le> n \<and> n \<le> 90) \<or> (192 \<le> n \<and> n \<le> 222 \<and> n \<noteq> 215) then char_of (n + 32) else c)"

definition toLowerCase :: "string \<Rightarrow> string" where
  "toLowerCase s = map lower_char s"

text \<open>\<^verbatim>\<open>split(/\s+/)\<close>: the pieces between runs of white space; a string that starts or ends
  with white space gives an empty first or last piece, the empty string gives one empty piece.\<close>

function split_ws :: "string \<Rightarrow> string list" where
  "split_ws s =
     (case dropWhile (\<lambda>c. \<not> is_space c) s of
        [] \<Rightarrow> [takeWhile (\<lambda>c. \<not> is_space c) s]
      | c # rest \<Rightarrow> takeWhile (\<lambda>c. \<not> is_space c) s # split_ws (dropWhile is_space rest))"
  by pat_completeness auto
termination
proof (relation "measure length")
  fix s :: string and c rest
  assume a: "dropWhile (\<lambda>c. \<not> is_space c) s = c # rest"
  have "length (dropWhile is_space rest) \<le> length rest"
    by (rule length_dropWhile_le)
  also have "length rest < length (dropWhile (\<lambda>c. \<not> is_space c) s)"
    by (simp add: a)
  also have "\<dots> \<le> length s"
    by (rule length_dropWhile_le)
  finally show "(dropWhile is_space rest, s) \<in> measure length"
    by simp
qed simp

declare split_ws.simps [simp del]

text \<open>The string conversion \<^verbatim>\<open>Array.prototype.join\<close> applies to the elements: null and
  undefined give the empty string, an array is joined with commas.\<close>

fun toString :: "jsval \<Rightarrow> string"
  and join_comma :: "jsval list \<Rightarrow> string" where
  "toString JNull = ''null''"
| "toString (JBool b) = (if b then ''true'' else ''false'')"
| "toString (JNum n) = (if n < 0 then ''-'' @ dec (nat (- n)) else dec (nat n))"
| "toString (JStr s) = s"
| "toString (JArr xs) = join_comma xs"
| "toString (JObj kvs) = ''[object Object]''"
| "join_comma [] = []"
| "join_comma [x] = (if x = JNull then [] else toString x)"
| "join_comma (x # y # ys) = (if x = JNull then [] else toString x) @ '','' @ join_comma (y # ys)"

fun join_elem :: "jsval option \<Rightarrow> string" where
  "join_elem None = []"
| "join_elem (Some JNull) = []"
| "join_elem (Some v) = toString v"

text \<open>
  The searchable string of \<^verbatim>\<open>applySearch\<close>. \<open>localeDate\<close> is the rendering
  \<^verbatim>\<open>new Date(task.createdAt).toLocaleDateString()\<close>, which depends on the locale of the browser.
\<close>

definition searchableText :: "(jsval option \<Rightarrow> string) \<Rightarrow> jsval \<Rightarrow> string" where
  "searchableText localeDate task =
     toLowerCase
       (join_elem (getprop task ''text'') @ '' '' @ join_elem (getprop task ''priority'') @ '' '' @
        (if truthy_opt (getprop task ''completed'') then ''completed'' else ''active'') @ '' '' @
        localeDate (getprop task ''createdAt''))"

text \<open>
  \<^verbatim>\<open>fuzzyMatch\<close> builds the regular expression \<^verbatim>\<open>c1.*c2.*...cn\<close> from the characters of the
  term. When none of them has a special meaning in a regular expression, it matches exactly
  when the characters of the term occur in this order within one line of the text (both are
  lower case already, and \<^verbatim>\<open>.\<close> does not match a line terminator). For a term with a special
  character the model gives no answer (\<open>None\<close>): the expression may mean something else or
  fail to compile.
\<close>

definition regex_special :: "char \<Rightarrow> bool" where
  "regex_special c \<longleftrightarrow> c \<in> set (CHR 0x5C # ''^$.*+?()[]{}|'')"

definition is_line_terminator :: "char \<Rightarrow> bool" where
  "is_line_terminator c \<longleftrightarrow> c = CHR 0x0A \<or> c = CHR 0x0D"

fun lines_of :: "string \<Rightarrow> string list" where
  "lines_of [] = [[]]"
| "lines_of (c # cs) =
     (if is_line_terminator c then [] # lines_of cs
      else (case lines_of cs of [] \<Rightarrow> [[c]] | l # ls \<Rightarrow> (c # l) # ls))"

definition fuzzyMatch :: "string \<Rightarrow> string \<Rightarrow> bool option" where
  "fuzzyMatch text term =
     (if length term < 3 then Some False
      else if \<exists>c \<in> set term. regex_special c then None
      else Some (\<exists>l \<in> set (lines_of text). subseq term l))"

text \<open>\<^verbatim>\<open>searchableText.includes(term) || this.fuzzyMatch(searchableText, term)\<close>, then
  \<^verbatim>\<open>every\<close> over the terms and \<^verbatim>\<open>filter\<close> over the tasks, both from left to right.\<close>

definition term_found :: "string \<Rightarrow> string \<Rightarrow> bool option" where
  "term_found text term = (if sublist term text then Some True else fuzzyMatch text term)"

fun every_term :: "string \<Rightarrow> string list \<Rightarrow> bool option" where
  "every_term text [] = Some True"
| "every_term text (term # terms) =
     (case term_found text term of
        None \<Rightarrow> None
      | Some False \<Rightarrow> Some False
      | Some True \<Rightarrow> every_term text terms)"

fun filter_tasks :: "(jsval \<Rightarrow> bool option) \<Rightarrow> jsval list \<Rightarrow> jsval list option" where
  "filter_tasks p [] = Some []"
| "filter_tasks p (t # ts) =
     (case p t of
        None \<Rightarrow> None
      | Some b \<Rightarrow> map_option (\<lambda>r. if b then t # r else r) (filter_tasks p ts))"

definition applySearch :: "(jsval option \<Rightarrow> string) \<Rightarrow> jsval list \<Rightarrow> string \<Rightarrow> jsval list option" where
  "applySearch localeDate taskList query =
     (let searchTerms = split_ws (trim (toLowerCase query))
      in filter_tasks (\<lambda>task. every_term (searchableText localeDate task) searchTerms) taskList)"

definition bags :: jsval where
  "bags = JObj [(''id'', JStr ''task_7_def''), (''text'', JStr ''Buy shopping bags''), (''priority'', JStr ''high''),
                (''completed'', JBool False), (''createdAt'', JStr ''2024-01-15T10:00:00.000Z''),
                (''updatedAt'', JStr ''2024-01-15T10:00:00.000Z''), (''completedAt'', JNull)]"

text \<open>\<^verbatim>\<open>getTasksByCriteria\<close> of the storage manager. The callback throws a TypeError, which
  nothing catches, when it reaches a truthy \<^verbatim>\<open>criteria.search\<close> that is not a string.\<close>

definition criteria_match :: "(string \<times> jsval) list \<Rightarrow> jsval \<Rightarrow> error + bool" where
  "criteria_match criteria task =
     (if map_of criteria ''completed'' \<noteq> None
         \<and> \<not> strict_eq (getprop task ''completed'') (map_of criteria ''completed'') then Inr False
      else if truthy_opt (map_of criteria ''priority'')
         \<and> \<not> strict_eq (getprop task ''priority'') (map_of criteria ''priority'') then Inr False
      else if truthy_opt (map_of criteria ''search'') then
        (case (getprop task ''text'', map_of criteria ''search'') of
           (Some (JStr text), Some (JStr search)) \<Rightarrow> Inr (sublist (toLowerCase search) (toLowerCase text))
         | _ \<Rightarrow> Inl TypeError)
      else Inr True)"

fun filter_err :: "('a \<Rightarrow> error + bool) \<Rightarrow> 'a list \<Rightarrow> error + 'a list" where
  "filter_err p [] = Inr []"
| "filter_err p (x # xs) =
     (case p x of
        Inl e \<Rightarrow> Inl e
      | Inr b \<Rightarrow> (case filter_err p xs of Inl e \<Rightarrow> Inl e | Inr r \<Rightarrow> Inr (if b then x # r else r)))"

definition getTasksByCriteria :: "ZenStorage \<Rightarrow> localStorage \<Rightarrow> (string \<times> jsval) list \<Rightarrow> error + jsval list" where
  "getTasksByCriteria zs ls criteria = filter_err (criteria_match criteria) (getTasks zs ls)"


text \<open>
  The completion invariant of a task: \<^verbatim>\<open>completed\<close> is a boolean, and it is true exactly when
  \<^verbatim>\<open>completedAt != null\<close> (the property is there and is not null).
\<close>

definition completion_inv :: "jsval \<Rightarrow> bool" where
  "completion_inv t =
     (case getprop t ''completed'' of
        Some (JBool b) \<Rightarrow> b = (getprop t ''completedAt'' \<notin> set [None, Some JNull])
      | _ \<Rightarrow> False)"

text \<open>
  An update object that has no \<^verbatim>\<open>completedAt\<close> property and whose \<^verbatim>\<open>completed\<close> property, if
  there is one, is a boolean. Its keys are distinct, as those of every object are.
\<close>

definition plain_updates :: "(string \<times> jsval) list \<Rightarrow> bool" where
  "plain_updates u \<longleftrightarrow>
     distinct (map fst u) \<and> ''completedAt'' \<notin> set (map fst u)
     \<and> (case map_of u ''completed'' of None \<Rightarrow> True | Some (JBool b) \<Rightarrow> True | Some _ \<Rightarrow> False)"

text \<open>The operations of the manager, each with the clock readings and random digits of
  its call, and their effect on the manager and the backing store, one after the other.\<close>

datatype tm_op =
    Create nat string string string jsval "jsval option"
  | Update string string string "(string \<times> jsval) list"
  | Toggle string string string
  | Delete string

fun tm_step :: "ZenStorage \<Rightarrow> tm_op \<Rightarrow> ZenTaskManager \<times> localStorage \<Rightarrow> ZenTaskManager \<times> localStorage" where
  "tm_step zs (Create now rnd created updated text priority) (tm, ls) =
     snd (createTask now rnd created updated text priority zs tm ls)"
| "tm_step zs (Update nowU nowC taskId updates) (tm, ls) = snd (tm_updateTask nowU nowC taskId updates zs tm ls)"
| "tm_step zs (Toggle nowU nowC taskId) (tm, ls) = snd (toggleTask nowU nowC taskId zs tm ls)"
| "tm_step zs (Delete taskId) (tm, ls) = snd (tm_deleteTask taskId zs tm ls)"

fun plain_op :: "tm_op \<Rightarrow> bool" where
  "plain_op (Update nowU nowC taskId updates) = plain_updates updates"
| "plain_op _ = True"

definition tm_run :: "ZenStorage \<Rightarrow> tm_op list \<Rightarrow> ZenTaskManager \<times> localStorage \<Rightarrow> ZenTaskManager \<times> localStorage" where
  "tm_run zs ops st = foldl (\<lambda>st op. tm_step zs op st) st ops"

definition milk_done :: jsval where
  "milk_done = JObj [(''id'', JStr ''task_5_abc''), (''text'', JStr ''Buy milk''), (''priority'', JStr ''low''),
                (''completed'', JBool True), (''createdAt'', JStr ''t1''), (''updatedAt'', JStr ''t2''),
                (''completedAt'', JStr ''t3'')]"


section \<open>Auxiliary facts\<close>

lemma findIndex_Some:
  "findIndex P xs = Some i \<Longrightarrow> i < length xs \<and> P (xs ! i) \<and> (\<forall>j<i. \<not> P (xs ! j))"
proof (induction xs arbitrary: i)
  case Nil
  then show ?case by simp
next
  case (Cons x xs)
  show ?case
  proof (cases "P x")
    case True
    with Cons.prems show ?thesis by simp
  next
    case False
    with Cons.prems obtain k where k: "findIndex P xs = Some k" "i = Suc k"
      by auto
    from Cons.IH [OF k(1)] False k(2) show ?thesis
      by (auto simp: less_Suc_eq_0_disj)
  qed
qed

lemma find_findIndex: "find P xs = map_option (\<lambda>i. xs ! i) (findIndex P xs)"
  by (induction xs) (auto simp: option.map_comp comp_def)

lemma saveTasks_True:
  assumes "saveTasks zs ls ts = (True, ls')"
  shows "isStorageAvailable zs" and "\<not> denied ls"
    and "ls' = ls\<lparr>entries := (entries ls)(storageKey zs \<mapsto> JsonText (JArr (filter save_valid ts)))\<rparr>"
  using assms by (auto simp: saveTasks_def setItem_def Let_def split: if_splits sum.splits)

section \<open>Filter correctness\<close>

text \<open>
  C6. For every task collection, the active filter shows exactly the tasks that are not
  completed, the completed filter exactly the completed ones, the all filter the whole
  collection; every task is in exactly one of the active and completed views.
\<close>

theorem Store_visible_filters:
  "Store_visible (s\<lparr>filter_of := ''active''\<rparr>) = filter (\<lambda>t. completed t = False) (tasks s)
   \<and> Store_visible (s\<lparr>filter_of := ''completed''\<rparr>) = filter (\<lambda>t. completed t = True) (tasks s)
   \<and> Store_visible (s\<lparr>filter_of := ''all''\<rparr>) = tasks s
   \<and> mset (Store_visible (s\<lparr>filter_of := ''active''\<rparr>)) + mset (Store_visible (s\<lparr>filter_of := ''completed''\<rparr>))
       = mset (tasks s)
   \<and> set (Store_visible (s\<lparr>filter_of := ''active''\<rparr>)) \<inter> set (Store_visible (s\<lparr>filter_of := ''completed''\<rparr>)) = {}"
proof -
  have a: "Store_visible (s\<lparr>filter_of := ''active''\<rparr>) = filter (\<lambda>t. \<not> completed t) (tasks s)"
    by (simp add: Store_visible_def byFilter_def cong: filter_cong)
  have c: "Store_visible (s\<lparr>filter_of := ''completed''\<rparr>) = filter completed (tasks s)"
    by (simp add: Store_visible_def byFilter_def cong: filter_cong)
  have l: "Store_visible (s\<lparr>filter_of := ''all''\<rparr>) = tasks s"
    by (simp add: Store_visible_def byFilter_def cong: filter_cong)
  have m: "mset (filter (\<lambda>t. \<not> completed t) (tasks s)) + mset (filter completed (tasks s)) = mset (tasks s)"
    by (induction "tasks s" arbitrary: s) (simp_all add: add.commute)
  show ?thesis
    unfolding a c l using m by auto
qed

section \<open>Reading with a fallback\<close>

text \<open>
  C3. Reading a key that has no entry should give the caller's fallback. In storage.js it
  gives null instead: on an empty backing store \<^verbatim>\<open>storage.get("state", initial)\<close>, the call
  store.js starts with, returns null and not \<^verbatim>\<open>initial\<close>. On a store that denies access the
  call throws.
\<close>

theorem storage_get_absent_key_gives_null:
  "Store_load empty_store = Inr JNull
   \<and> state_json initial \<noteq> JNull
   \<and> Store_load denied_store = Inl SecurityError"
  by (simp add: Store_load_def storage_get_def getItem_def empty_store_def denied_store_def
      safeJSON_parse_def state_json_def)

text \<open>\<^verbatim>\<open>getTasks\<close> of the storage manager gives its fixed fallback, the empty list, in all
  three cases: no entry, access denied, and a stored string that is not JSON.\<close>

lemma getTasks_fallback:
  assumes "denied ls \<or> entries ls (storageKey zs) = None \<or> entries ls (storageKey zs) = Some Garbage
           \<or> entries ls (storageKey zs) = Some EmptyText"
  shows "getTasks zs ls = []"
  using assms by (auto simp: getTasks_def getItem_def)

section \<open>Failing writes\<close>

text \<open>
  C1, as stated, fails: when the write of \<^verbatim>\<open>Store.add\<close> is refused by the backing store, the
  exception reaches the caller but the new task stays in the in-memory collection.
\<close>

theorem Store_add_keeps_task_when_write_fails:
  "Store_add ''u1'' ''milk'' initial full_store
     = (Inl QuotaExceededError,
        \<lparr>tasks = [\<lparr>task_id = ''u1'', title = ''milk'', completed = False\<rparr>], filter_of = ''all''\<rparr>,
        full_store)
   \<and> tasks initial = []"
  by (simp add: Store_add_def persist_def storage_set_def setItem_def full_store_def initial_def
      trim_def is_space_def Let_def)


lemma filter_out_at_index:
  assumes "distinct (map f xs)" and "i < length xs" and "f (xs ! i) = k"
  shows "filter (\<lambda>t. f t \<noteq> k) xs = take i xs @ drop (Suc i) xs"
proof -
  have xs: "xs = take i xs @ xs ! i # drop (Suc i) xs"
    using assms(2) by (rule id_take_nth_drop)
  have d: "distinct (map f (take i xs) @ f (xs ! i) # map f (drop (Suc i) xs))"
    using assms(1) by (subst (asm) xs) simp
  then have "k \<notin> f ` set (take i xs)" and "k \<notin> f ` set (drop (Suc i) xs)"
    using assms(3) by auto
  then have a: "\<forall>t \<in> set (take i xs). f t \<noteq> k" and b: "\<forall>t \<in> set (drop (Suc i) xs). f t \<noteq> k"
    by blast+
  have "filter (\<lambda>t. f t \<noteq> k) xs
      = filter (\<lambda>t. f t \<noteq> k) (take i xs) @ filter (\<lambda>t. f t \<noteq> k) (xs ! i # drop (Suc i) xs)"
    by (subst xs) simp
  also have "\<dots> = take i xs @ drop (Suc i) xs"
    using a b assms(3) by (simp add: filter_id_conv)
  finally show ?thesis .
qed

lemma splice_restores:
  assumes "distinct (map f xs)" and "i < length xs" and "f (xs ! i) = k"
  shows "take i (filter (\<lambda>t. f t \<noteq> k) xs) @ [xs ! i] @ drop i (filter (\<lambda>t. f t \<noteq> k) xs) = xs"
proof -
  have l: "length (take i xs) = i"
    using assms(2) by simp
  have t: "take i (take i xs @ drop (Suc i) xs) = take i xs"
    by (simp only: take_append l) simp
  have d: "drop i (take i xs @ drop (Suc i) xs) = drop (Suc i) xs"
    by (simp only: drop_append l) simp
  show ?thesis
    unfolding filter_out_at_index [OF assms] t d
    using id_take_nth_drop [OF assms(2)] by simp
qed

lemma saveTasks_False: "saveTasks zs ls ts = (False, ls') \<Longrightarrow> ls' = ls"
  by (auto simp: saveTasks_def Let_def split: if_splits sum.splits)

lemma zs_updateTask_False: "zs_updateTask zs ls taskId upd = (False, ls') \<Longrightarrow> ls' = ls"
  by (auto simp: zs_updateTask_def split: option.splits dest: saveTasks_False)

lemma createTask_failure:
  assumes fresh: "Some (JStr (generateId now rnd)) \<notin> set (map (\<lambda>t. getprop t ''id'') (tm_tasks tm))"
      and r: "fst (createTask now rnd created updated text priority zs tm ls) = None"
  shows "snd (createTask now rnd created updated text priority zs tm ls) = (notifyObservers ''error'' tm, ls)"
proof -
  have fl: "filter (\<lambda>t. getprop t ''id'' \<noteq> Some (JStr (generateId now rnd))) (tm_tasks tm) = tm_tasks tm"
    using fresh by (force simp: filter_id_conv)
  show ?thesis
  proof (cases "validateTaskText text")
    case None
    then show ?thesis by (simp add: createTask_def)
  next
    case (Some vt)
    show ?thesis
    proof (cases "vt = []")
      case True
      with Some show ?thesis by (simp add: createTask_def)
    next
      case False
      let ?task = "JObj [(''id'', JStr (generateId now rnd)), (''text'', JStr vt),
                         (''priority'', JStr (validatePriority (case priority of None \<Rightarrow> JStr ''medium'' | Some p \<Rightarrow> p))),
                         (''completed'', JBool False), (''createdAt'', JStr created),
                         (''updatedAt'', JStr updated), (''completedAt'', JNull)]"
      obtain b ls' where z: "zs_addTask zs ls ?task = (b, ls')"
        by (cases "zs_addTask zs ls ?task") auto
      from r Some False z have b: "b = False"
        by (cases b) (simp_all add: createTask_def Let_def)
      with z have "ls' = ls"
        by (auto simp: zs_addTask_def dest: saveTasks_False)
      with Some False z b fl show ?thesis
        by (simp add: createTask_def Let_def)
    qed
  qed
qed

lemma tm_updateTask_failure:
  assumes r: "fst (tm_updateTask nowU nowC taskId upd zs tm ls) = False"
  shows "snd (tm_updateTask nowU nowC taskId upd zs tm ls) = (notifyObservers ''error'' tm, ls)"
proof (cases "findIndex (\<lambda>t. getprop t ''id'' = Some (JStr taskId)) (tm_tasks tm)")
  case None
  then show ?thesis by (simp add: tm_updateTask_def)
next
  case (Some i)
  show ?thesis
  proof (cases "build_updatedTask nowU nowC taskId (tm_tasks tm ! i) upd")
    case None
    with Some show ?thesis by (simp add: tm_updateTask_def)
  next
    case m: (Some m)
    obtain b ls' where z: "zs_updateTask zs ls taskId m = (b, ls')"
      by (cases "zs_updateTask zs ls taskId m") auto
    from r Some m z have b: "b = False"
      by (cases b) (simp_all add: tm_updateTask_def Let_def)
    with z have "ls' = ls"
      by (auto dest: zs_updateTask_False)
    with Some m z b show ?thesis
      by (simp add: tm_updateTask_def Let_def)
  qed
qed

lemma tm_deleteTask_failure:
  assumes dist: "distinct (map (\<lambda>t. getprop t ''id'') (tm_tasks tm))"
      and r: "fst (tm_deleteTask taskId zs tm ls) = False"
  shows "snd (tm_deleteTask taskId zs tm ls) = (notifyObservers ''error'' tm, ls)"
proof (cases "findIndex (\<lambda>t. getprop t ''id'' = Some (JStr taskId)) (tm_tasks tm)")
  case None
  then show ?thesis by (simp add: tm_deleteTask_def)
next
  case (Some i)
  from findIndex_Some [OF Some] have i: "i < length (tm_tasks tm)"
    and k: "getprop (tm_tasks tm ! i) ''id'' = Some (JStr taskId)"
    by simp_all
  obtain b ls' where z: "zs_deleteTask zs ls taskId = (b, ls')"
    by (cases "zs_deleteTask zs ls taskId") auto
  from r Some z have b: "b = False"
    by (cases b) (simp_all add: tm_deleteTask_def Let_def)
  with z have "ls' = ls"
    by (auto simp: zs_deleteTask_def dest: saveTasks_False)
  with Some z b splice_restores [OF dist i k] show ?thesis
    by (simp add: tm_deleteTask_def Let_def)
qed

lemma toggleTask_failure:
  assumes r: "fst (toggleTask nowU nowC taskId zs tm ls) = False"
  shows "snd (toggleTask nowU nowC taskId zs tm ls) = (notifyObservers ''error'' tm, ls)
       \<or> snd (toggleTask nowU nowC taskId zs tm ls) = (tm, ls)"
proof (cases "find (\<lambda>t. getprop t ''id'' = Some (JStr taskId)) (tm_tasks tm)")
  case None
  then show ?thesis by (simp add: toggleTask_def)
next
  case (Some task)
  with r tm_updateTask_failure [of nowU nowC taskId _ zs tm ls] show ?thesis
    by (simp add: toggleTask_def)
qed

lemma saveTasks_iff: "fst (saveTasks zs ls ts) = False \<longleftrightarrow> write_fails zs ls ts"
  by (auto simp: saveTasks_def write_fails_def Let_def split: sum.splits)

lemma createTask_succeeds_iff:
  "fst (createTask now rnd created updated text priority zs tm ls) \<noteq> None
     \<longleftrightarrow> (\<exists>vt. validateTaskText text = Some vt \<and> vt \<noteq> []
              \<and> \<not> write_fails zs ls (getTasks zs ls @ [created_task now rnd created updated vt priority]))"
proof (cases "validateTaskText text")
  case None
  then show ?thesis by (simp add: createTask_def)
next
  case (Some vt)
  show ?thesis
  proof (cases "vt = []")
    case True
    with Some show ?thesis by (simp add: createTask_def)
  next
    case False
    let ?task = "created_task now rnd created updated vt priority"
    obtain b ls' where z: "saveTasks zs ls (getTasks zs ls @ [?task]) = (b, ls')"
      by (cases "saveTasks zs ls (getTasks zs ls @ [?task])") auto
    from saveTasks_iff [of zs ls "getTasks zs ls @ [?task]"] z
    have w: "write_fails zs ls (getTasks zs ls @ [?task]) \<longleftrightarrow> \<not> b" by simp
    from Some False z w show ?thesis
      by (cases b) (simp_all add: createTask_def Let_def zs_addTask_def created_task_def [symmetric])
  qed
qed

lemma tm_updateTask_succeeds_iff:
  "fst (tm_updateTask nowU nowC taskId upd zs tm ls)
     \<longleftrightarrow> (\<exists>i m ts. findIndex (\<lambda>t. getprop t ''id'' = Some (JStr taskId)) (tm_tasks tm) = Some i
              \<and> build_updatedTask nowU nowC taskId (tm_tasks tm ! i) upd = Some m
              \<and> updated_tasks zs ls taskId m = Some ts
              \<and> \<not> write_fails zs ls ts)"
proof (cases "findIndex (\<lambda>t. getprop t ''id'' = Some (JStr taskId)) (tm_tasks tm)")
  case None
  then show ?thesis by (simp add: tm_updateTask_def)
next
  case (Some i)
  show ?thesis
  proof (cases "build_updatedTask nowU nowC taskId (tm_tasks tm ! i) upd")
    case None
    with Some show ?thesis by (simp add: tm_updateTask_def)
  next
    case m: (Some m)
    obtain b ls' where z: "zs_updateTask zs ls taskId m = (b, ls')"
      by (cases "zs_updateTask zs ls taskId m") auto
    have r: "fst (tm_updateTask nowU nowC taskId upd zs tm ls) = b"
      using Some m z by (cases b) (simp_all add: tm_updateTask_def Let_def)
    have "b \<longleftrightarrow> (\<exists>ts. updated_tasks zs ls taskId m = Some ts \<and> \<not> write_fails zs ls ts)"
    proof (cases "updated_tasks zs ls taskId m")
      case None
      with z show ?thesis by (simp add: zs_updateTask_def)
    next
      case (Some ts)
      with z saveTasks_iff [of zs ls ts] show ?thesis
        by (auto simp: zs_updateTask_def)
    qed
    with r Some m show ?thesis by simp
  qed
qed

lemma tm_deleteTask_succeeds_iff:
  "fst (tm_deleteTask taskId zs tm ls)
     \<longleftrightarrow> findIndex (\<lambda>t. getprop t ''id'' = Some (JStr taskId)) (tm_tasks tm) \<noteq> None
         \<and> \<not> write_fails zs ls (filter (\<lambda>t. getprop t ''id'' \<noteq> Some (JStr taskId)) (getTasks zs ls))"
proof (cases "findIndex (\<lambda>t. getprop t ''id'' = Some (JStr taskId)) (tm_tasks tm)")
  case None
  then show ?thesis by (simp add: tm_deleteTask_def)
next
  case (Some i)
  let ?ts = "filter (\<lambda>t. getprop t ''id'' \<noteq> Some (JStr taskId)) (getTasks zs ls)"
  obtain b ls' where z: "saveTasks zs ls ?ts = (b, ls')"
    by (cases "saveTasks zs ls ?ts") auto
  from saveTasks_iff [of zs ls ?ts] z have "write_fails zs ls ?ts \<longleftrightarrow> \<not> b" by simp
  with Some z show ?thesis
    by (cases b) (simp_all add: tm_deleteTask_def zs_deleteTask_def Let_def)
qed

lemma toggleTask_succeeds_iff:
  "fst (toggleTask nowU nowC taskId zs tm ls)
     \<longleftrightarrow> (\<exists>i m ts. findIndex (\<lambda>t. getprop t ''id'' = Some (JStr taskId)) (tm_tasks tm) = Some i
              \<and> build_updatedTask nowU nowC taskId (tm_tasks tm ! i)
                    [(''completed'', JBool (\<not> truthy_opt (getprop (tm_tasks tm ! i) ''completed'')))] = Some m
              \<and> updated_tasks zs ls taskId m = Some ts
              \<and> \<not> write_fails zs ls ts)"
proof (cases "findIndex (\<lambda>t. getprop t ''id'' = Some (JStr taskId)) (tm_tasks tm)")
  case None
  then show ?thesis by (simp add: toggleTask_def find_findIndex)
next
  case (Some i)
  then show ?thesis
    by (simp add: toggleTask_def find_findIndex tm_updateTask_succeeds_iff)
qed

lemma Store_add_throws:
  assumes "trim ttl \<noteq> []"
      and "setItem ls (NAMESPACE @ '':'' @ KEY)
             (JsonText (state_json (s\<lparr>tasks := \<lparr>task_id = u, title = trim ttl, completed = False\<rparr> # tasks s\<rparr>))) = Inl e"
  shows "Store_add u ttl s ls
       = (Inl e, s\<lparr>tasks := \<lparr>task_id = u, title = trim ttl, completed = False\<rparr> # tasks s\<rparr>, ls)"
  using assms by (simp add: Store_add_def persist_def storage_set_def Let_def)

lemma Store_toggle_throws:
  assumes "toggle_first sid (tasks s) = Some ts'"
      and "setItem ls (NAMESPACE @ '':'' @ KEY) (JsonText (state_json (s\<lparr>tasks := ts'\<rparr>))) = Inl e"
  shows "Store_toggle sid s ls = (Inl e, s\<lparr>tasks := ts'\<rparr>, ls)"
  using assms by (simp add: Store_toggle_def persist_def storage_set_def Let_def)

lemma Store_remove_throws:
  assumes "setItem ls (NAMESPACE @ '':'' @ KEY)
             (JsonText (state_json (s\<lparr>tasks := filter (\<lambda>t. task_id t \<noteq> sid) (tasks s)\<rparr>))) = Inl e"
  shows "Store_remove sid s ls = (Inl e, s\<lparr>tasks := filter (\<lambda>t. task_id t \<noteq> sid) (tasks s)\<rparr>, ls)"
  using assms by (simp add: Store_remove_def persist_def storage_set_def Let_def)

lemma refused_store_write_fails:
  assumes "\<not> isStorageAvailable zs \<or> denied ls \<or> (\<forall>v. \<not> accepts ls (storageKey zs) v)"
  shows "write_fails zs ls ts"
  using assms by (auto simp: write_fails_def setItem_def)

text \<open>
  C1, amended. In the task manager, \<^verbatim>\<open>createTask\<close>, \<^verbatim>\<open>updateTask\<close>, \<^verbatim>\<open>deleteTask\<close> and
  \<^verbatim>\<open>toggleTask\<close> report success exactly when their validation and lookups pass and the write
  they make to the backing store succeeds; so each reports failure (null or false) when that
  write fails, be it that the store was found unavailable, that access is denied or that
  this one write is refused. Whenever one of them reports failure, the task array and the
  backing store are what they were before the call, and an error event has been emitted
  (except by \<^verbatim>\<open>toggleTask\<close> on an unknown id). This needs the ids in the array to be pairwise
  distinct and the generated id to be new. The minimal store has no rollback: when the write
  of \<^verbatim>\<open>Store.add\<close>, \<^verbatim>\<open>Store.toggle\<close> or \<^verbatim>\<open>Store.remove\<close> throws, the exception reaches the
  caller and the state in memory is the changed one.
\<close>

theorem write_failure_rolls_back:
  assumes dist: "distinct (map (\<lambda>t. getprop t ''id'') (tm_tasks tm))"
      and fresh: "Some (JStr (generateId now rnd)) \<notin> set (map (\<lambda>t. getprop t ''id'') (tm_tasks tm))"
  shows "(fst (createTask now rnd created updated body priority zs tm ls) = None
            \<longrightarrow> snd (createTask now rnd created updated body priority zs tm ls) = (notifyObservers ''error'' tm, ls))
       \<and> (fst (tm_updateTask nowU nowC taskId updates zs tm ls) = False
            \<longrightarrow> snd (tm_updateTask nowU nowC taskId updates zs tm ls) = (notifyObservers ''error'' tm, ls))
       \<and> (fst (tm_deleteTask taskId zs tm ls) = False
            \<longrightarrow> snd (tm_deleteTask taskId zs tm ls) = (notifyObservers ''error'' tm, ls))
       \<and> (fst (toggleTask nowU nowC taskId zs tm ls) = False
            \<longrightarrow> snd (toggleTask nowU nowC taskId zs tm ls) = (notifyObservers ''error'' tm, ls)
                \<or> snd (toggleTask nowU nowC taskId zs tm ls) = (tm, ls))
       \<and> tm_tasks (notifyObservers ''error'' tm) = tm_tasks tm
       \<and> (fst (createTask now rnd created updated body priority zs tm ls) \<noteq> None
            \<longleftrightarrow> (\<exists>vt. validateTaskText body = Some vt \<and> vt \<noteq> []
                     \<and> \<not> write_fails zs ls (getTasks zs ls @ [created_task now rnd created updated vt priority])))
       \<and> (fst (tm_updateTask nowU nowC taskId updates zs tm ls)
            \<longleftrightarrow> (\<exists>i m ts. findIndex (\<lambda>t. getprop t ''id'' = Some (JStr taskId)) (tm_tasks tm) = Some i
                     \<and> build_updatedTask nowU nowC taskId (tm_tasks tm ! i) updates = Some m
                     \<and> updated_tasks zs ls taskId m = Some ts
                     \<and> \<not> write_fails zs ls ts))
       \<and> (fst (tm_deleteTask taskId zs tm ls)
            \<longleftrightarrow> findIndex (\<lambda>t. getprop t ''id'' = Some (JStr taskId)) (tm_tasks tm) \<noteq> None
                \<and> \<not> write_fails zs ls (filter (\<lambda>t. getprop t ''id'' \<noteq> Some (JStr taskId)) (getTasks zs ls)))
       \<and> (fst (toggleTask nowU nowC taskId zs tm ls)
            \<longleftrightarrow> (\<exists>i m ts. findIndex (\<lambda>t. getprop t ''id'' = Some (JStr taskId)) (tm_tasks tm) = Some i
                     \<and> build_updatedTask nowU nowC taskId (tm_tasks tm ! i)
                           [(''completed'', JBool (\<not> truthy_opt (getprop (tm_tasks tm ! i) ''completed'')))] = Some m
                     \<and> updated_tasks zs ls taskId m = Some ts
                     \<and> \<not> write_fails zs ls ts))
       \<and> (\<not> isStorageAvailable zs \<or> denied ls \<or> (\<forall>v. \<not> accepts ls (storageKey zs) v)
            \<longrightarrow> fst (createTask now rnd created updated body priority zs tm ls) = None
              \<and> fst (tm_updateTask nowU nowC taskId updates zs tm ls) = False
              \<and> fst (tm_deleteTask taskId zs tm ls) = False
              \<and> fst (toggleTask nowU nowC taskId zs tm ls) = False)
       \<and> (\<forall>e. trim ttl \<noteq> []
              \<and> setItem sls (NAMESPACE @ '':'' @ KEY)
                   (JsonText (state_json (s\<lparr>tasks := \<lparr>task_id = u, title = trim ttl, completed = False\<rparr> # tasks s\<rparr>)))
                  = Inl e
            \<longrightarrow> Store_add u ttl s sls
                  = (Inl e, s\<lparr>tasks := \<lparr>task_id = u, title = trim ttl, completed = False\<rparr> # tasks s\<rparr>, sls))
       \<and> (\<forall>e ts'. toggle_first sid (tasks s) = Some ts'
              \<and> setItem sls (NAMESPACE @ '':'' @ KEY) (JsonText (state_json (s\<lparr>tasks := ts'\<rparr>))) = Inl e
            \<longrightarrow> Store_toggle sid s sls = (Inl e, s\<lparr>tasks := ts'\<rparr>, sls))
       \<and> (\<forall>e. setItem sls (NAMESPACE @ '':'' @ KEY)
                   (JsonText (state_json (s\<lparr>tasks := filter (\<lambda>t. task_id t \<noteq> sid) (tasks s)\<rparr>))) = Inl e
            \<longrightarrow> Store_remove sid s sls = (Inl e, s\<lparr>tasks := filter (\<lambda>t. task_id t \<noteq> sid) (tasks s)\<rparr>, sls))"
proof -
  note c = createTask_succeeds_iff [of now rnd created updated body priority zs tm ls]
  note up = tm_updateTask_succeeds_iff [of nowU nowC taskId updates zs tm ls]
  note d = tm_deleteTask_succeeds_iff [of taskId zs tm ls]
  note t = toggleTask_succeeds_iff [of nowU nowC taskId zs tm ls]
  have a: "fst (createTask now rnd created updated body priority zs tm ls) = None
              \<and> fst (tm_updateTask nowU nowC taskId updates zs tm ls) = False
              \<and> fst (tm_deleteTask taskId zs tm ls) = False
              \<and> fst (toggleTask nowU nowC taskId zs tm ls) = False"
    if fails: "\<not> isStorageAvailable zs \<or> denied ls \<or> (\<forall>v. \<not> accepts ls (storageKey zs) v)"
  proof -
    have w: "\<And>ts. write_fails zs ls ts"
      using fails by (rule refused_store_write_fails)
    from c up d t show ?thesis
      by (simp add: w)
  qed
  have r1: "fst (createTask now rnd created updated body priority zs tm ls) = None
            \<longrightarrow> snd (createTask now rnd created updated body priority zs tm ls) = (notifyObservers ''error'' tm, ls)"
    using createTask_failure [OF fresh] by blast
  have r2: "fst (tm_updateTask nowU nowC taskId updates zs tm ls) = False
            \<longrightarrow> snd (tm_updateTask nowU nowC taskId updates zs tm ls) = (notifyObservers ''error'' tm, ls)"
    using tm_updateTask_failure by blast
  have r3: "fst (tm_deleteTask taskId zs tm ls) = False
            \<longrightarrow> snd (tm_deleteTask taskId zs tm ls) = (notifyObservers ''error'' tm, ls)"
    using tm_deleteTask_failure [OF dist] by blast
  have r4: "fst (toggleTask nowU nowC taskId zs tm ls) = False
            \<longrightarrow> snd (toggleTask nowU nowC taskId zs tm ls) = (notifyObservers ''error'' tm, ls)
                \<or> snd (toggleTask nowU nowC taskId zs tm ls) = (tm, ls)"
    using toggleTask_failure by blast
  have r5: "tm_tasks (notifyObservers ''error'' tm) = tm_tasks tm"
    by (simp add: notifyObservers_def)
  have s1: "\<forall>e. trim ttl \<noteq> []
              \<and> setItem sls (NAMESPACE @ '':'' @ KEY)
                   (JsonText (state_json (s\<lparr>tasks := \<lparr>task_id = u, title = trim ttl, completed = False\<rparr> # tasks s\<rparr>)))
                  = Inl e
            \<longrightarrow> Store_add u ttl s sls
                  = (Inl e, s\<lparr>tasks := \<lparr>task_id = u, title = trim ttl, completed = False\<rparr> # tasks s\<rparr>, sls)"
    using Store_add_throws by blast
  have s2: "\<forall>e ts'. toggle_first sid (tasks s) = Some ts'
              \<and> setItem sls (NAMESPACE @ '':'' @ KEY) (JsonText (state_json (s\<lparr>tasks := ts'\<rparr>))) = Inl e
            \<longrightarrow> Store_toggle sid s sls = (Inl e, s\<lparr>tasks := ts'\<rparr>, sls)"
    using Store_toggle_throws by blast
  have s3: "\<forall>e. setItem sls (NAMESPACE @ '':'' @ KEY)
                   (JsonText (state_json (s\<lparr>tasks := filter (\<lambda>t. task_id t \<noteq> sid) (tasks s)\<rparr>))) = Inl e
            \<longrightarrow> Store_remove sid s sls = (Inl e, s\<lparr>tasks := filter (\<lambda>t. task_id t \<noteq> sid) (tasks s)\<rparr>, sls)"
    using Store_remove_throws by blast
  from a have a': "\<not> isStorageAvailable zs \<or> denied ls \<or> (\<forall>v. \<not> accepts ls (storageKey zs) v)
            \<longrightarrow> fst (createTask now rnd created updated body priority zs tm ls) = None
              \<and> fst (tm_updateTask nowU nowC taskId updates zs tm ls) = False
              \<and> fst (tm_deleteTask taskId zs tm ls) = False
              \<and> fst (toggleTask nowU nowC taskId zs tm ls) = False"
    by blast
  show ?thesis
    by (intro conjI r1 r2 r3 r4 r5 c up d t a' s1 s2 s3)
qed

theorem write_failure_rolls_back_witness:
  "\<not> write_fails zs_ok picky_store []
   \<and> write_fails zs_ok picky_store
        (getTasks zs_ok picky_store @ [created_task 6 ''xyz'' ''t2'' ''t2'' ''Call home'' None])
   \<and> createTask 6 ''xyz'' ''t2'' ''t2'' (JStr ''Call home'') None zs_ok (tm0\<lparr>tm_tasks := [milk]\<rparr>) picky_store
     = (None, notifyObservers ''error'' (tm0\<lparr>tm_tasks := [milk]\<rparr>), picky_store)
   \<and> tm_deleteTask ''task_5_abc'' zs_ok (tm0\<lparr>tm_tasks := [milk]\<rparr>) full_store
     = (False, notifyObservers ''error'' (tm0\<lparr>tm_tasks := [milk]\<rparr>), full_store)
   \<and> tm_tasks (notifyObservers ''error'' (tm0\<lparr>tm_tasks := [milk]\<rparr>)) = [milk]
   \<and> Store_add ''u1'' ''milk'' initial full_store
     = (Inl QuotaExceededError,
        initial\<lparr>tasks := [\<lparr>task_id = ''u1'', title = ''milk'', completed = False\<rparr>]\<rparr>, full_store)"
proof -
  let ?tm = "tm0\<lparr>tm_tasks := [milk]\<rparr>"
  have d: "distinct (map (\<lambda>t. getprop t ''id'') (tm_tasks ?tm))"
    by simp
  have g: "generateId 6 ''xyz'' = ''task_6_xyz''"
    by (simp add: generateId_def dec.simps digit_char_def)
  have n: "Some (JStr (generateId 6 ''xyz'')) \<notin> set (map (\<lambda>t. getprop t ''id'') (tm_tasks ?tm))"
    by (simp add: g milk_def)
  have v: "validateTaskText (JStr ''Call home'') = Some ''Call home''"
    by (simp add: validateTaskText_def trim_def is_space_def)
  have w0: "\<not> write_fails zs_ok picky_store []"
    by (simp add: write_fails_def zs_ok_def setItem_def picky_store_def)
  have w1: "write_fails zs_ok picky_store
        (getTasks zs_ok picky_store @ [created_task 6 ''xyz'' ''t2'' ''t2'' ''Call home'' None])"
    by (simp add: write_fails_def zs_ok_def setItem_def picky_store_def getTasks_def getItem_def
        created_task_def g save_valid_def)
  have w2: "write_fails zs_ok full_store ts" for ts
    by (simp add: write_fails_def zs_ok_def setItem_def full_store_def)
  have t: "trim ''milk'' = ''milk''"
    by (simp add: trim_def is_space_def)
  have q: "setItem full_store (NAMESPACE @ '':'' @ KEY)
             (JsonText (state_json (initial\<lparr>tasks := \<lparr>task_id = ''u1'', title = trim ''milk'', completed = False\<rparr> # tasks initial\<rparr>)))
            = Inl QuotaExceededError"
    by (simp add: setItem_def full_store_def)
  note th = write_failure_rolls_back [OF d n, where created = "''t2''" and updated = "''t2''"
      and body = "JStr ''Call home''" and priority = None and zs = zs_ok and taskId = "''task_5_abc''"
      and ttl = "''milk''" and s = initial and u = "''u1''" and sls = full_store]
  have c1: "createTask 6 ''xyz'' ''t2'' ''t2'' (JStr ''Call home'') None zs_ok ?tm picky_store
     = (None, notifyObservers ''error'' ?tm, picky_store)"
    using th [where ls = picky_store] v w1 by (auto simp: prod_eq_iff)
  have d1: "tm_deleteTask ''task_5_abc'' zs_ok ?tm full_store = (False, notifyObservers ''error'' ?tm, full_store)"
    using th [where ls = full_store] w2 by (auto simp: prod_eq_iff)
  have s1: "Store_add ''u1'' ''milk'' initial full_store
     = (Inl QuotaExceededError,
        initial\<lparr>tasks := [\<lparr>task_id = ''u1'', title = ''milk'', completed = False\<rparr>]\<rparr>, full_store)"
    using th [where ls = picky_store] q t by (simp add: initial_def)
  from w0 w1 c1 d1 s1 show ?thesis
    by (simp add: notifyObservers_def)
qed


text \<open>Without distinct ids the rollback of \<^verbatim>\<open>deleteTask\<close> loses the other tasks with the id:
  \<^verbatim>\<open>filter\<close> removes them all and \<^verbatim>\<open>splice\<close> puts one back.\<close>

lemma deleteTask_rollback_with_duplicate_ids:
  "tm_tasks (fst (snd (tm_deleteTask ''task_5_abc'' zs_ok (tm0\<lparr>tm_tasks := [milk, milk_done]\<rparr>) full_store)))
     = [milk]"
  by (simp add: tm_deleteTask_def zs_deleteTask_def saveTasks_def getTasks_def zs_ok_def getItem_def
      setItem_def full_store_def tm0_def milk_def milk_done_def notifyObservers_def Let_def)

section \<open>The unavailable store\<close>

text \<open>
  C5. If the availability probe of the constructor throws, the storage manager is marked
  unavailable; the mark is never changed, and whatever the backing store is later,
  \<^verbatim>\<open>getTasks\<close> returns the empty list, \<^verbatim>\<open>getSettings\<close> the default settings, and \<^verbatim>\<open>saveTasks\<close>,
  \<^verbatim>\<open>saveSettings\<close> and \<^verbatim>\<open>clearAll\<close> return false and leave the backing store as it is.
\<close>

theorem unavailable_store_is_inert:
  assumes "probe_throws ls0"
  shows "isStorageAvailable (fst (ZenStorage_new ls0)) = False
    \<and> getTasks (fst (ZenStorage_new ls0)) ls = []
    \<and> getSettings (fst (ZenStorage_new ls0)) ls = getDefaultSettings
    \<and> saveTasks (fst (ZenStorage_new ls0)) ls ts = (False, ls)
    \<and> saveSettings (fst (ZenStorage_new ls0)) ls st = (False, ls)
    \<and> clearAll (fst (ZenStorage_new ls0)) ls = (False, ls)"
proof -
  have "isStorageAvailable (fst (ZenStorage_new ls0)) = False"
    using assms
    by (auto simp: probe_throws_def ZenStorage_new_def checkStorageAvailability_def
        split: sum.splits prod.splits)
  then show ?thesis
    by (simp add: getTasks_def getSettings_def saveTasks_def saveSettings_def clearAll_def)
qed

theorem unavailable_store_is_inert_witness:
  "probe_throws full_store
   \<and> isStorageAvailable (fst (ZenStorage_new full_store)) = False
   \<and> getTasks (fst (ZenStorage_new full_store)) empty_store = []
   \<and> saveTasks (fst (ZenStorage_new full_store)) empty_store [JObj [(''id'', JStr ''a''), (''text'', JStr ''b'')]] = (False, empty_store)"
proof -
  have h: "probe_throws full_store"
    by (simp add: probe_throws_def setItem_def full_store_def)
  show ?thesis
    using h unavailable_store_is_inert [OF h, of empty_store "[JObj [(''id'', JStr ''a''), (''text'', JStr ''b'')]]"]
    by simp
qed

section \<open>Shape checks of the stored task array\<close>

lemma getTasks_stored2:
  "getTasks zs_ok (stored [JObj [(''id'', JStr ''a''), (''text'', JStr ''x'')], JObj [(''id'', JStr ''b''), (''text'', JStr ''y'')]])
   = [JObj [(''id'', JStr ''a''), (''text'', JStr ''x'')], JObj [(''id'', JStr ''b''), (''text'', JStr ''y'')]]"
  by (simp add: getTasks_def zs_ok_def stored_def getItem_def empty_store_def get_valid_def)


text \<open>
  C10, as stated, fails: a record whose id is the number 1 passes the shape check of
  \<^verbatim>\<open>saveTasks\<close> and is written, but \<^verbatim>\<open>getTasks\<close> does not return it.
\<close>

theorem saveTasks_getTasks_drops_numeric_id:
  "saveTasks zs_ok empty_store [JObj [(''id'', JNum 1), (''text'', JStr ''y'')]]
     = (True, stored [JObj [(''id'', JNum 1), (''text'', JStr ''y'')]])
   \<and> save_valid (JObj [(''id'', JNum 1), (''text'', JStr ''y'')])
   \<and> getTasks zs_ok (stored [JObj [(''id'', JNum 1), (''text'', JStr ''y'')]]) = []"
  by (simp add: saveTasks_def zs_ok_def setItem_def empty_store_def stored_def save_valid_def
      getTasks_def getItem_def get_valid_def)


text \<open>
  C10, amended. After a successful \<^verbatim>\<open>saveTasks\<close> the stored array holds exactly the records
  of the input that pass its shape check, in their order, and \<^verbatim>\<open>getTasks\<close> returns exactly
  those of them whose id is a string.
\<close>

theorem getTasks_after_saveTasks:
  assumes "saveTasks zs ls ts = (True, ls')"
  shows "entries ls' (storageKey zs) = Some (JsonText (JArr (filter save_valid ts)))
       \<and> getTasks zs ls' = filter (\<lambda>t. save_valid t \<and> is_string (getprop t ''id'')) ts"
proof -
  note s = saveTasks_True [OF assms]
  have "filter get_valid (filter save_valid ts) = filter (\<lambda>t. save_valid t \<and> is_string (getprop t ''id'')) ts"
    by (auto simp: get_valid_def save_valid_def intro: filter_cong)
  then show ?thesis
    using s(1,2) by (simp add: getTasks_def getItem_def s(3))
qed

theorem getTasks_after_saveTasks_witness:
  "saveTasks zs_ok empty_store [JObj [(''id'', JStr ''a''), (''text'', JStr ''x'')], JNull, JObj [(''id'', JNum 1), (''text'', JStr ''y'')]]
     = (True, stored [JObj [(''id'', JStr ''a''), (''text'', JStr ''x'')], JObj [(''id'', JNum 1), (''text'', JStr ''y'')]])
   \<and> getTasks zs_ok (stored [JObj [(''id'', JStr ''a''), (''text'', JStr ''x'')], JObj [(''id'', JNum 1), (''text'', JStr ''y'')]])
     = [JObj [(''id'', JStr ''a''), (''text'', JStr ''x'')]]"
proof -
  have h: "saveTasks zs_ok empty_store [JObj [(''id'', JStr ''a''), (''text'', JStr ''x'')], JNull, JObj [(''id'', JNum 1), (''text'', JStr ''y'')]]
     = (True, stored [JObj [(''id'', JStr ''a''), (''text'', JStr ''x'')], JObj [(''id'', JNum 1), (''text'', JStr ''y'')]])"
    by (simp add: saveTasks_def zs_ok_def setItem_def empty_store_def stored_def save_valid_def)
  from getTasks_after_saveTasks [OF h] h show ?thesis
    by (simp add: save_valid_def)
qed


text \<open>
  C9. \<^verbatim>\<open>updateTask\<close> of the storage manager leaves the id of every stored task as it was,
  position by position, whatever the update object contains; the array with these ids is
  what it hands to \<^verbatim>\<open>saveTasks\<close>, which writes the records of it that pass its shape check.
\<close>

theorem zs_updateTask_keeps_ids:
  assumes "updated_tasks zs ls taskId updates = Some ts"
  shows "map (\<lambda>t. getprop t ''id'') ts = map (\<lambda>t. getprop t ''id'') (getTasks zs ls)
       \<and> zs_updateTask zs ls taskId updates = saveTasks zs ls ts
       \<and> (\<forall>ls'. zs_updateTask zs ls taskId updates = (True, ls')
             \<longrightarrow> entries ls' (storageKey zs) = Some (JsonText (JArr (filter save_valid ts))))"
proof -
  let ?old = "getTasks zs ls"
  let ?P = "\<lambda>t. getprop t ''id'' = Some (JStr taskId)"
  from assms obtain i where i: "findIndex ?P ?old = Some i"
    and ts: "ts = ?old[i := JObj (AList.update ''id'' (JStr taskId) (spread (own_props (?old ! i)) updates))]"
    by (auto simp: updated_tasks_def Let_def split: option.splits)
  from findIndex_Some [OF i] have lt: "i < length ?old" and at: "getprop (?old ! i) ''id'' = Some (JStr taskId)"
    by simp_all
  have new: "getprop (JObj (AList.update ''id'' (JStr taskId) (spread (own_props (?old ! i)) updates))) ''id''
      = Some (JStr taskId)"
    by (simp add: update_conv')
  have "map (\<lambda>t. getprop t ''id'') ts = (map (\<lambda>t. getprop t ''id'') ?old)[i := Some (JStr taskId)]"
    unfolding ts map_update new ..
  also have "\<dots> = map (\<lambda>t. getprop t ''id'') ?old"
    using lt at by (metis list_update_id nth_map)
  finally have ids: "map (\<lambda>t. getprop t ''id'') ts = map (\<lambda>t. getprop t ''id'') ?old" .
  have z: "zs_updateTask zs ls taskId updates = saveTasks zs ls ts"
    using assms by (simp add: zs_updateTask_def)
  have "entries ls' (storageKey zs) = Some (JsonText (JArr (filter save_valid ts)))"
    if "zs_updateTask zs ls taskId updates = (True, ls')" for ls'
    using saveTasks_True(3) [of zs ls ts ls'] that z by simp
  with ids z show ?thesis by blast
qed

theorem zs_updateTask_keeps_ids_witness:
  "updated_tasks zs_ok
      (stored [JObj [(''id'', JStr ''a''), (''text'', JStr ''x'')], JObj [(''id'', JStr ''b''), (''text'', JStr ''y'')]])
      ''b'' [(''id'', JStr ''zzz''), (''text'', JStr ''new'')]
    = Some [JObj [(''id'', JStr ''a''), (''text'', JStr ''x'')], JObj [(''id'', JStr ''b''), (''text'', JStr ''new'')]]
   \<and> map (\<lambda>t. getprop t ''id'')
        [JObj [(''id'', JStr ''a''), (''text'', JStr ''x'')], JObj [(''id'', JStr ''b''), (''text'', JStr ''new'')]]
      = [Some (JStr ''a''), Some (JStr ''b'')]"
proof -
  have h: "updated_tasks zs_ok
      (stored [JObj [(''id'', JStr ''a''), (''text'', JStr ''x'')], JObj [(''id'', JStr ''b''), (''text'', JStr ''y'')]])
      ''b'' [(''id'', JStr ''zzz''), (''text'', JStr ''new'')]
    = Some [JObj [(''id'', JStr ''a''), (''text'', JStr ''x'')], JObj [(''id'', JStr ''b''), (''text'', JStr ''new'')]]"
    by (simp add: updated_tasks_def getTasks_stored2 spread_def)
  from zs_updateTask_keeps_ids [OF h] h show ?thesis
    by (simp add: getTasks_stored2)
qed


section \<open>Rejection of blank input\<close>

lemma trim_blank:
  assumes "\<forall>c \<in> set s. is_space c"
  shows "trim s = []"
proof -
  from assms have d: "dropWhile is_space s = []"
    by simp
  show ?thesis
    unfolding trim_def d by simp
qed


text \<open>
  C8. When the input text is empty or all white space, \<^verbatim>\<open>Store.add\<close> returns without a task,
  \<^verbatim>\<open>addTask\<close> of app.js only alerts, and \<^verbatim>\<open>createTask\<close> returns null after an error event;
  in each case the in-memory collection and the backing store are what they were.
\<close>

theorem blank_text_is_rejected:
  assumes "\<forall>c \<in> set text. is_space c"
  shows "Store_add u text s ls = (Inr None, s, ls)
       \<and> addTask now r text ts ls = (Inr Alerted, ts, ls)
       \<and> createTask now rnd created updated (JStr text) priority zs tm ls
           = (None, notifyObservers ''error'' tm, ls)
       \<and> tm_tasks (notifyObservers ''error'' tm) = tm_tasks tm"
  using trim_blank [OF assms]
  by (simp add: Store_add_def addTask_def createTask_def validateTaskText_def notifyObservers_def)

theorem blank_text_is_rejected_witness:
  "list_all is_space ''   ''
   \<and> Store_add ''u1'' ''   '' initial empty_store = (Inr None, initial, empty_store)
   \<and> addTask 5 7 ''   '' [] empty_store = (Inr Alerted, [], empty_store)
   \<and> fst (createTask 5 ''abc'' ''t1'' ''t2'' (JStr ''   '') (Some (JStr ''high'')) zs_ok
        \<lparr>tm_tasks = [], currentFilter = ''all'', settings = [], notified = []\<rparr> empty_store) = None"
proof -
  have h: "\<forall>c \<in> set ''   ''. is_space c"
    by (simp add: is_space_def)
  from blank_text_is_rejected [OF h] h show ?thesis
    by (simp add: list_all_iff)
qed


section \<open>Identifiers of new tasks\<close>

lemma of_char_digit_char:
  assumes "k < 10"
  shows "of_char (digit_char k) = 48 + k"
proof -
  from assms have "k \<in> {0, 1, 2, 3, 4, 5, 6, 7, 8, 9}"
    by auto
  then show ?thesis
    by (auto simp: digit_char_def)
qed

lemma undec_dec: "undec (dec n) = n"
proof (induction n rule: dec.induct)
  case (1 n)
  show ?case
  proof (cases "n < 10")
    case True
    then show ?thesis
      by (subst dec.simps) (simp add: undec_def of_char_digit_char)
  next
    case False
    have m: "n mod 10 < 10" by simp
    have "undec (dec n) = 10 * undec (dec (n div 10)) + n mod 10"
      using False m by (subst dec.simps) (simp add: undec_def of_char_digit_char)
    with 1 False show ?thesis by simp
  qed
qed

lemma dec_inj: "dec a = dec b \<Longrightarrow> a = b"
  by (metis undec_dec)

lemma dec_no_dash: "CHR ''-'' \<notin> set (dec n)"
proof (induction n rule: dec.induct)
  case (1 n)
  have d: "\<And>k. k < 10 \<Longrightarrow> digit_char k \<noteq> CHR ''-''"
  proof -
    fix k :: nat assume "k < 10"
    then have "of_char (digit_char k) = 48 + k"
      by (rule of_char_digit_char)
    then show "digit_char k \<noteq> CHR ''-''"
      by auto
  qed
  show ?case
  proof (cases "n < 10")
    case True
    then show ?thesis using d [of n] by (subst dec.simps) auto
  next
    case False
    have "n mod 10 < 10" by simp
    from d [OF this] 1 False show ?thesis
      by (subst dec.simps) auto
  qed
qed

lemma id_format_inj:
  assumes "dec a @ CHR ''-'' # dec b = dec c @ CHR ''-'' # dec d"
  shows "a = c \<and> b = d"
proof -
  have t: "\<And>x y. takeWhile (\<lambda>ch. ch \<noteq> CHR ''-'') (dec x @ ''-'' @ dec y) = dec x"
    using dec_no_dash by (subst takeWhile_append2) auto
  from assms t [of a b] t [of c d] have "dec a = dec c" by (metis append_Cons append_Nil)
  with assms have "dec b = dec d" by simp
  with \<open>dec a = dec c\<close> show ?thesis
    by (simp add: dec_inj)
qed

lemma addTasks_ids:
  "map a_id (fst (addTasks calls ts ls))
     = map a_id ts @ map (\<lambda>(now, r, d). dec now @ ''-'' @ dec r) (filter (\<lambda>(now, r, d). trim d \<noteq> []) calls)"
proof (induction calls arbitrary: ts ls)
  case Nil
  then show ?case by simp
next
  case (Cons c calls)
  obtain now r d where c: "c = (now, r, d)" by (cases c) auto
  show ?case
    unfolding c
    by (simp add: Cons.IH addTask_def Let_def split: sum.splits prod.splits)
qed

lemma Store_adds_ids:
  "map task_id (tasks (fst (Store_adds calls s ls)))
     = rev (map fst (filter (\<lambda>(u, ttl). trim ttl \<noteq> []) calls)) @ map task_id (tasks s)"
proof (induction calls arbitrary: s ls)
  case Nil
  then show ?case by simp
next
  case (Cons c calls)
  obtain u ttl where c: "c = (u, ttl)" by (cases c) auto
  show ?case
    unfolding c
    by (simp add: Cons.IH Store_add_def Let_def split: sum.splits prod.splits)
qed


text \<open>
  C7. The ids given to new tasks should be pairwise distinct. In app.js they are not: two
  \<^verbatim>\<open>addTask\<close> calls in the same millisecond that draw the same random number give their
  tasks the same id.
\<close>

theorem addTask_same_clock_and_draw_same_id:
  "map a_id (fst (addTasks [(1700000000000, 7, ''buy milk''), (1700000000000, 7, ''call home'')] [] empty_store))
     = [''1700000000000-7'', ''1700000000000-7'']
   \<and> \<not> distinct (map a_id (fst (addTasks [(1700000000000, 7, ''buy milk''), (1700000000000, 7, ''call home'')]
                                    [] empty_store)))"
  by (simp add: addTask_def app_saveTasks_def setItem_def empty_store_def trim_def is_space_def
      dec.simps digit_char_def Let_def)

text \<open>
  No operation compares a new id with the ids in the collection: the ids of a sequence of
  \<^verbatim>\<open>addTask\<close> calls are distinct when no two calls see the same clock value and random draw,
  and those of a sequence of \<^verbatim>\<open>Store.add\<close> calls are when the UUIDs drawn are.
\<close>

lemma ids_distinct_when_draws_distinct:
  "(distinct (map (\<lambda>(now, r, d). (now, r)) calls) \<longrightarrow> distinct (map a_id (fst (addTasks calls [] ls))))
   \<and> (distinct (map fst ucalls) \<longrightarrow> distinct (map task_id (tasks (fst (Store_adds ucalls initial ls')))))"
proof (intro conjI impI)
  assume d: "distinct (map (\<lambda>(now, r, d). (now, r)) calls)"
  have inj: "inj_on (\<lambda>(now, r, d). dec now @ ''-'' @ dec r) (set (filter (\<lambda>(now, r, d). trim d \<noteq> []) calls))"
  proof (rule inj_onI)
    fix x y
    assume x: "x \<in> set (filter (\<lambda>(now, r, d). trim d \<noteq> []) calls)"
       and y: "y \<in> set (filter (\<lambda>(now, r, d). trim d \<noteq> []) calls)"
       and e: "(case x of (now, r, d) \<Rightarrow> dec now @ ''-'' @ dec r) = (case y of (now, r, d) \<Rightarrow> dec now @ ''-'' @ dec r)"
    obtain a b c where xx: "x = (a, b, c)" by (cases x) auto
    obtain a' b' c' where yy: "y = (a', b', c')" by (cases y) auto
    from e have "a = a' \<and> b = b'" unfolding xx yy by (auto dest: id_format_inj)
    moreover from x y have "x \<in> set calls" "y \<in> set calls" by auto
    ultimately show "x = y"
      using d unfolding xx yy
      by (metis (mono_tags, lifting) case_prod_conv distinct_map inj_onD)
  qed
  have "distinct (filter (\<lambda>(now, r, d). trim d \<noteq> []) calls)"
    using d by (simp add: distinct_map)
  with inj show "distinct (map a_id (fst (addTasks calls [] ls)))"
    by (simp add: addTasks_ids distinct_map)
next
  assume d: "distinct (map fst ucalls)"
  then have "distinct (map fst (filter (\<lambda>(u, ttl). trim ttl \<noteq> []) ucalls))"
    by (simp add: distinct_map_filter)
  then show "distinct (map task_id (tasks (fst (Store_adds ucalls initial ls'))))"
    by (simp add: Store_adds_ids initial_def)
qed

section \<open>The completion invariant\<close>

lemmas eval_defs = createTask_def validateTaskText_def trim_def is_space_def validatePriority_def
      generateId_def dec.simps digit_char_def zs_addTask_def getTasks_def saveTasks_def zs_ok_def
      getItem_def setItem_def empty_store_def stored_def save_valid_def get_valid_def tm0_def milk_def
      notifyObservers_def Let_def toggleTask_def tm_updateTask_def build_updatedTask_def
      zs_updateTask_def updated_tasks_def spread_def milk_done_def tm_run_def

lemma map_of_spread:
  assumes "distinct (map fst b)"
  shows "map_of (spread a b) = map_of a ++ map_of b"
  using assms
proof (induction b arbitrary: a)
  case Nil
  then show ?case by (simp add: spread_def)
next
  case (Cons kv b)
  obtain k v where kv: "kv = (k, v)" by (cases kv) auto
  from Cons.prems have d: "distinct (map fst b)" and nk: "k \<notin> fst ` set b"
    by (auto simp: kv)
  have "spread a (kv # b) = spread (AList.update k v a) b"
    by (simp add: spread_def kv)
  then have "map_of (spread a (kv # b)) = map_of (AList.update k v a) ++ map_of b"
    by (simp only: Cons.IH [OF d])
  also have "\<dots> = (map_of a)(k \<mapsto> v) ++ map_of b"
    by (simp only: update_conv')
  also have "\<dots> = map_of a ++ map_of (kv # b)"
  proof
    fix x
    have "map_of b k = None" using nk by (simp add: map_of_eq_None_iff)
    then show "((map_of a)(k \<mapsto> v) ++ map_of b) x = (map_of a ++ map_of (kv # b)) x"
      by (auto simp: kv map_add_def split: option.splits)
  qed
  finally show ?case .
qed

lemma completion_invE:
  assumes "completion_inv t"
  obtains kvs b where "t = JObj kvs" and "map_of kvs ''completed'' = Some (JBool b)"
    and "b = (map_of kvs ''completedAt'' \<notin> {None, Some JNull})"
proof (cases t)
  case (JObj kvs)
  with assms obtain b where "map_of kvs ''completed'' = Some (JBool b)"
    and "b = (map_of kvs ''completedAt'' \<notin> {None, Some JNull})"
    by (auto simp: completion_inv_def split: option.splits jsval.splits)
  with JObj that show ?thesis by blast
qed (use assms in \<open>auto simp: completion_inv_def\<close>)

lemma build_updatedTask_completion:
  assumes b: "build_updatedTask nowU nowC taskId (JObj kvs) u = Some m"
      and d: "distinct (map fst u)"
  shows "map_of m ''completed'' = (case map_of u ''completed'' of None \<Rightarrow> map_of kvs ''completed'' | Some c \<Rightarrow> Some c)"
    and "map_of m ''completedAt'' =
           (case map_of u ''completed'' of
              None \<Rightarrow> (map_of kvs ++ map_of u) ''completedAt''
            | Some c \<Rightarrow>
                if \<not> strict_eq (Some c) (map_of kvs ''completed'')
                then Some (if truthy c then JStr nowC else JNull)
                else (map_of kvs ++ map_of u) ''completedAt'')"
proof -
  let ?t0 = "AList.update ''updatedAt'' (JStr nowU) (AList.update ''id'' (JStr taskId) (spread kvs u))"
  have t0: "map_of ?t0 ''completed'' = (map_of kvs ++ map_of u) ''completed''"
           "map_of ?t0 ''completedAt'' = (map_of kvs ++ map_of u) ''completedAt''"
    by (simp_all add: update_conv' map_of_spread [OF d])
  from b obtain t1 where t1: "t1 = ?t0 \<or> (\<exists>vt. t1 = AList.update ''text'' (JStr vt) ?t0)"
    and m: "m = (case map_of u ''completed'' of
                   None \<Rightarrow> (case map_of u ''priority'' of None \<Rightarrow> t1
                             | Some p \<Rightarrow> AList.update ''priority'' (JStr (validatePriority p)) t1)
                 | Some c \<Rightarrow>
                     if \<not> strict_eq (Some c) (map_of kvs ''completed'')
                     then AList.update ''completedAt'' (if truthy c then JStr nowC else JNull)
                            (case map_of u ''priority'' of None \<Rightarrow> t1
                             | Some p \<Rightarrow> AList.update ''priority'' (JStr (validatePriority p)) t1)
                     else (case map_of u ''priority'' of None \<Rightarrow> t1
                           | Some p \<Rightarrow> AList.update ''priority'' (JStr (validatePriority p)) t1))"
    by (auto simp: build_updatedTask_def Let_def split: option.splits if_splits)
  from t1 t0 have t1c: "map_of t1 ''completed'' = (map_of kvs ++ map_of u) ''completed''"
    "map_of t1 ''completedAt'' = (map_of kvs ++ map_of u) ''completedAt''"
    by (auto simp: update_conv')
  let ?t2 = "case map_of u ''priority'' of None \<Rightarrow> t1
             | Some p \<Rightarrow> AList.update ''priority'' (JStr (validatePriority p)) t1"
  from t1c have t2c: "map_of ?t2 ''completed'' = (map_of kvs ++ map_of u) ''completed''"
    "map_of ?t2 ''completedAt'' = (map_of kvs ++ map_of u) ''completedAt''"
    by (auto simp: update_conv' split: option.splits)
  show "map_of m ''completed'' = (case map_of u ''completed'' of None \<Rightarrow> map_of kvs ''completed'' | Some c \<Rightarrow> Some c)"
    unfolding m using t2c(1)
    by (auto simp: update_conv' map_add_def split: option.splits)
  show "map_of m ''completedAt'' =
           (case map_of u ''completed'' of
              None \<Rightarrow> (map_of kvs ++ map_of u) ''completedAt''
            | Some c \<Rightarrow>
                if \<not> strict_eq (Some c) (map_of kvs ''completed'')
                then Some (if truthy c then JStr nowC else JNull)
                else (map_of kvs ++ map_of u) ''completedAt'')"
    unfolding m using t2c(2)
    by (auto simp: update_conv' split: option.splits)
qed

lemma build_updatedTask_inv:
  assumes inv: "completion_inv cur" and pl: "plain_updates u"
      and b: "build_updatedTask nowU nowC taskId cur u = Some m"
  shows "completion_inv (JObj m)"
proof -
  from inv obtain kvs bb where cur: "cur = JObj kvs" and c: "map_of kvs ''completed'' = Some (JBool bb)"
    and bb: "bb = (map_of kvs ''completedAt'' \<notin> {None, Some JNull})"
    by (rule completion_invE)
  from pl have d: "distinct (map fst u)" and na: "map_of u ''completedAt'' = None"
    by (auto simp: plain_updates_def map_of_eq_None_iff)
  note r = build_updatedTask_completion [OF b [unfolded cur] d]
  have at: "(map_of kvs ++ map_of u) ''completedAt'' = map_of kvs ''completedAt''"
    using na by (simp add: map_add_def)
  show ?thesis
  proof (cases "map_of u ''completed''")
    case None
    with r c bb at show ?thesis
      by (simp add: completion_inv_def)
  next
    case (Some cv)
    with pl obtain nb where cv: "cv = JBool nb"
      by (auto simp: plain_updates_def split: jsval.splits)
    with r c bb at Some show ?thesis
      by (auto simp: completion_inv_def)
  qed
qed

lemma createTask_inv:
  assumes "list_all completion_inv (tm_tasks tm)"
  shows "list_all completion_inv (tm_tasks (fst (snd (createTask now rnd created updated text priority zs tm ls))))"
proof -
  have n: "\<And>vt vp. completion_inv (JObj [(''id'', JStr (generateId now rnd)), (''text'', JStr vt),
                             (''priority'', JStr vp), (''completed'', JBool False),
                             (''createdAt'', JStr created), (''updatedAt'', JStr updated),
                             (''completedAt'', JNull)])"
    by (simp add: completion_inv_def)
  show ?thesis
    using assms n
    by (auto simp: createTask_def Let_def notifyObservers_def list_all_iff
        split: option.splits prod.splits bool.splits)
qed

lemma tm_updateTask_inv:
  assumes inv: "list_all completion_inv (tm_tasks tm)" and pl: "plain_updates u"
  shows "list_all completion_inv (tm_tasks (fst (snd (tm_updateTask nowU nowC taskId u zs tm ls))))"
proof (cases "findIndex (\<lambda>t. getprop t ''id'' = Some (JStr taskId)) (tm_tasks tm)")
  case None
  with inv show ?thesis by (simp add: tm_updateTask_def notifyObservers_def)
next
  case (Some i)
  from findIndex_Some [OF Some] have i: "i < length (tm_tasks tm)" by simp
  with inv have ci: "completion_inv (tm_tasks tm ! i)"
    by (simp add: list_all_length)
  show ?thesis
  proof (cases "build_updatedTask nowU nowC taskId (tm_tasks tm ! i) u")
    case None
    with Some inv show ?thesis by (simp add: tm_updateTask_def notifyObservers_def)
  next
    case (Some m)
    from build_updatedTask_inv [OF ci pl Some] have cm: "completion_inv (JObj m)" .
    have a: "list_all completion_inv ((tm_tasks tm)[i := JObj m])"
      using inv cm by (auto simp: list_all_iff dest!: set_update_subset_insert [THEN subsetD])
    have b: "list_all completion_inv ((tm_tasks tm)[i := JObj m, i := tm_tasks tm ! i])"
      using inv by simp
    obtain r ls' where z: "zs_updateTask zs ls taskId m = (r, ls')"
      by (cases "zs_updateTask zs ls taskId m") auto
    show ?thesis
      using a b \<open>findIndex _ _ = Some i\<close> Some z
      by (cases r) (simp_all add: tm_updateTask_def notifyObservers_def Let_def)
  qed
qed

lemma toggleTask_inv:
  assumes inv: "list_all completion_inv (tm_tasks tm)"
  shows "list_all completion_inv (tm_tasks (fst (snd (toggleTask nowU nowC taskId zs tm ls))))"
proof -
  have "\<And>b. plain_updates [(''completed'', JBool b)]"
    by (simp add: plain_updates_def)
  with inv show ?thesis
    by (auto simp: toggleTask_def tm_updateTask_inv split: option.splits)
qed

lemma tm_deleteTask_inv:
  assumes inv: "list_all completion_inv (tm_tasks tm)"
  shows "list_all completion_inv (tm_tasks (fst (snd (tm_deleteTask taskId zs tm ls))))"
proof (cases "findIndex (\<lambda>t. getprop t ''id'' = Some (JStr taskId)) (tm_tasks tm)")
  case None
  with inv show ?thesis by (simp add: tm_deleteTask_def notifyObservers_def)
next
  case (Some i)
  from findIndex_Some [OF Some] have i: "i < length (tm_tasks tm)" by simp
  with inv have ci: "completion_inv (tm_tasks tm ! i)"
    by (simp add: list_all_length)
  let ?rem = "filter (\<lambda>t. getprop t ''id'' \<noteq> Some (JStr taskId)) (tm_tasks tm)"
  have r: "list_all completion_inv ?rem"
    using inv by (auto simp: list_all_iff)
  then have "list_all completion_inv (take i ?rem)" "list_all completion_inv (drop i ?rem)"
    by (auto simp: list_all_iff dest: in_set_takeD in_set_dropD)
  with ci have s: "list_all completion_inv (take i ?rem @ [tm_tasks tm ! i] @ drop i ?rem)"
    by simp
  obtain ok ls' where z: "zs_deleteTask zs ls taskId = (ok, ls')"
    by (cases "zs_deleteTask zs ls taskId") auto
  show ?thesis
    using r s Some z
    by (cases ok) (simp_all add: tm_deleteTask_def notifyObservers_def Let_def)
qed

lemma tm_step_inv:
  assumes "list_all completion_inv (tm_tasks (fst st))" and "plain_op op"
  shows "list_all completion_inv (tm_tasks (fst (tm_step zs op st)))"
proof -
  obtain tm ls where st: "st = (tm, ls)" by (cases st) auto
  from assms show ?thesis
    unfolding st
    by (cases op) (simp_all add: createTask_inv tm_updateTask_inv toggleTask_inv tm_deleteTask_inv)
qed

lemma tm_run_inv:
  assumes "list_all completion_inv (tm_tasks (fst st))" and "list_all plain_op ops"
  shows "list_all completion_inv (tm_tasks (fst (tm_run zs ops st)))"
  using assms
proof (induction ops arbitrary: st)
  case Nil
  then show ?case by (simp add: tm_run_def)
next
  case (Cons op ops)
  from Cons.prems have "list_all completion_inv (tm_tasks (fst (tm_step zs op st)))"
    by (simp add: tm_step_inv)
  with Cons.prems Cons.IH [of "tm_step zs op st"] show ?case
    by (simp add: tm_run_def)
qed


lemma toggleTask_effect:
  assumes inv: "list_all completion_inv (tm_tasks tm)"
      and t: "toggleTask nowU nowC taskId zs tm ls = (True, tm', ls')"
      and i: "findIndex (\<lambda>t. getprop t ''id'' = Some (JStr taskId)) (tm_tasks tm) = Some i"
  shows "getprop (tm_tasks tm' ! i) ''completed'' = Some (JBool (\<not> truthy_opt (getprop (tm_tasks tm ! i) ''completed'')))
       \<and> getprop (tm_tasks tm' ! i) ''completedAt''
           = Some (if truthy_opt (getprop (tm_tasks tm ! i) ''completed'') then JNull else JStr nowC)"
proof -
  let ?cur = "tm_tasks tm ! i"
  let ?u = "[(''completed'', JBool (\<not> truthy_opt (getprop ?cur ''completed'')))]"
  from findIndex_Some [OF i] have il: "i < length (tm_tasks tm)" by simp
  with inv have "completion_inv ?cur" by (simp add: list_all_length)
  then obtain kvs b where cur: "?cur = JObj kvs" and c: "map_of kvs ''completed'' = Some (JBool b)"
    by (rule completion_invE)
  from t i have u: "tm_updateTask nowU nowC taskId ?u zs tm ls = (True, tm', ls')"
    by (simp add: toggleTask_def find_findIndex)
  then obtain m where m: "build_updatedTask nowU nowC taskId ?cur ?u = Some m"
    and tm': "tm_tasks tm' = (tm_tasks tm)[i := JObj m]"
    by (auto simp: tm_updateTask_def i Let_def notifyObservers_def
        split: option.splits prod.splits bool.splits)
  have d: "\<And>x. distinct (map fst [(''completed'', x :: jsval)])" by simp
  from build_updatedTask_completion [OF m [unfolded cur] d] c cur il tm'
  show ?thesis by simp
qed


text \<open>
  C2, as stated, fails: \<^verbatim>\<open>updateTask\<close> copies every property of the update object, so an
  update that carries \<^verbatim>\<open>completedAt\<close> gives a task that is not completed a completion time.
\<close>

theorem update_with_completedAt_breaks_invariant:
  "tm_tasks (fst (tm_run zs_ok [Create 5 ''abc'' ''t1'' ''t1'' (JStr ''Buy milk'') (Some (JStr ''low'')),
                               Update ''t2'' ''t3'' ''task_5_abc'' [(''completedAt'', JStr ''t0'')]] (tm0, empty_store)))
     = [JObj [(''id'', JStr ''task_5_abc''), (''text'', JStr ''Buy milk''), (''priority'', JStr ''low''),
              (''completed'', JBool False), (''createdAt'', JStr ''t1''), (''updatedAt'', JStr ''t2''),
              (''completedAt'', JStr ''t0'')]]"
  by (simp add: eval_defs)


text \<open>
  C2, amended. From a collection in which every task satisfies the completion invariant,
  every sequence of \<^verbatim>\<open>createTask\<close>, \<^verbatim>\<open>toggleTask\<close>, \<^verbatim>\<open>deleteTask\<close> and of \<^verbatim>\<open>updateTask\<close> calls
  whose update object has no \<^verbatim>\<open>completedAt\<close> property and at most a boolean \<^verbatim>\<open>completed\<close>
  leads to a collection in which every task satisfies it. A successful \<^verbatim>\<open>toggleTask\<close> flips
  \<^verbatim>\<open>completed\<close> and sets \<^verbatim>\<open>completedAt\<close> to the time of the call when the task becomes
  completed and to null when it becomes active again.
\<close>

theorem completion_invariant_preserved:
  assumes "list_all completion_inv (tm_tasks tm)" and "list_all plain_op ops"
  shows "list_all completion_inv (tm_tasks (fst (tm_run zs ops (tm, ls))))
       \<and> (\<forall>nowU nowC taskId tm' ls' i.
            toggleTask nowU nowC taskId zs tm ls = (True, tm', ls')
            \<and> findIndex (\<lambda>t. getprop t ''id'' = Some (JStr taskId)) (tm_tasks tm) = Some i
            \<longrightarrow> getprop (tm_tasks tm' ! i) ''completed''
                  = Some (JBool (\<not> truthy_opt (getprop (tm_tasks tm ! i) ''completed'')))
                \<and> getprop (tm_tasks tm' ! i) ''completedAt''
                  = Some (if truthy_opt (getprop (tm_tasks tm ! i) ''completed'') then JNull else JStr nowC))"
  using tm_run_inv [of "(tm, ls)" ops zs] toggleTask_effect [OF assms(1)] assms
  by auto

theorem completion_invariant_preserved_witness:
  "list_all completion_inv (tm_tasks tm0)
   \<and> list_all plain_op [Create 5 ''abc'' ''t1'' ''t1'' (JStr ''Buy milk'') (Some (JStr ''low'')),
                         Toggle ''t2'' ''t3'' ''task_5_abc'']
   \<and> tm_tasks (fst (tm_run zs_ok [Create 5 ''abc'' ''t1'' ''t1'' (JStr ''Buy milk'') (Some (JStr ''low'')),
                                   Toggle ''t2'' ''t3'' ''task_5_abc''] (tm0, empty_store))) = [milk_done]
   \<and> list_all completion_inv [milk_done]"
proof -
  have a: "list_all completion_inv (tm_tasks tm0)"
    by (simp add: tm0_def)
  have b: "list_all plain_op [Create 5 ''abc'' ''t1'' ''t1'' (JStr ''Buy milk'') (Some (JStr ''low'')),
                         Toggle ''t2'' ''t3'' ''task_5_abc'']"
    by simp
  have c: "tm_tasks (fst (tm_run zs_ok [Create 5 ''abc'' ''t1'' ''t1'' (JStr ''Buy milk'') (Some (JStr ''low'')),
                                   Toggle ''t2'' ''t3'' ''task_5_abc''] (tm0, empty_store))) = [milk_done]"
    by (simp add: eval_defs)
  from completion_invariant_preserved [OF a b, of zs_ok empty_store] a b c show ?thesis
    by simp
qed


section \<open>Search\<close>

lemmas search_eval = searchableText_def bags_def toLowerCase_def lower_char_def char_of_def bit_0 Let_def split_ws.simps trim_def is_space_def term_found_def sublist_code fuzzyMatch_def
  regex_special_def is_line_terminator_def list_emb_code applySearch_def

lemma filter_tasks_total:
  assumes "\<forall>t \<in> set ts. p t = Some (q t)"
  shows "filter_tasks p ts = Some (filter q ts)"
  using assms by (induction ts) auto

lemma every_term_plain:
  assumes "\<forall>term \<in> set terms. \<forall>c \<in> set term. \<not> regex_special c"
  shows "every_term text terms
     = Some (\<forall>term \<in> set terms.
               sublist term text \<or> (3 \<le> length term \<and> (\<exists>l \<in> set (lines_of text). subseq term l)))"
  using assms
proof (induction terms)
  case Nil
  then show ?case by simp
next
  case (Cons t terms)
  from Cons.prems have t: "\<forall>c \<in> set t. \<not> regex_special c" by simp
  have f: "term_found text t
     = Some (sublist t text \<or> (3 \<le> length t \<and> (\<exists>l \<in> set (lines_of text). subseq t l)))"
    using t by (auto simp: term_found_def fuzzyMatch_def)
  from Cons.prems have "every_term text terms
     = Some (\<forall>term \<in> set terms.
               sublist term text \<or> (3 \<le> length term \<and> (\<exists>l \<in> set (lines_of text). subseq term l)))"
    by (intro Cons.IH) simp
  with f show ?case
    by (auto split: bool.splits)
qed

lemma applySearch_plain_terms:
  assumes "\<forall>term \<in> set (split_ws (trim (toLowerCase query))). \<forall>c \<in> set term. \<not> regex_special c"
  shows "applySearch localeDate taskList query
     = Some (filter
          (\<lambda>task. \<forall>term \<in> set (split_ws (trim (toLowerCase query))).
                     sublist term (searchableText localeDate task)
                     \<or> (3 \<le> length term
                         \<and> (\<exists>l \<in> set (lines_of (searchableText localeDate task)). subseq term l)))
          taskList)"
  unfolding applySearch_def Let_def
  by (rule filter_tasks_total) (simp add: every_term_plain [OF assms])

lemma terms_high_shop: "split_ws (trim (toLowerCase ''high shop'')) = [''high'', ''shop'']"
  by (simp add: search_eval)

lemma terms_high_car: "split_ws (trim (toLowerCase ''high car'')) = [''high'', ''car'']"
  by (simp add: search_eval)

lemma text_bags: "searchableText (\<lambda>d. ''1/15/2024'') bags = ''buy shopping bags high active 1/15/2024''"
  by (simp add: search_eval)

lemma search_high_shop: "applySearch (\<lambda>d. ''1/15/2024'') [bags] ''high shop'' = Some [bags]"
proof -
  have h: "\<forall>term \<in> set (split_ws (trim (toLowerCase ''high shop''))). \<forall>c \<in> set term. \<not> regex_special c"
    by (simp add: terms_high_shop regex_special_def)
  show ?thesis
    unfolding applySearch_plain_terms [OF h] terms_high_shop
    by (simp add: text_bags sublist_code)
qed

lemma search_high_car: "applySearch (\<lambda>d. ''1/15/2024'') [bags] ''high car'' = Some []"
proof -
  have h: "\<forall>term \<in> set (split_ws (trim (toLowerCase ''high car''))). \<forall>c \<in> set term. \<not> regex_special c"
    by (simp add: terms_high_car regex_special_def)
  show ?thesis
    unfolding applySearch_plain_terms [OF h] terms_high_car
    by (simp add: text_bags sublist_code list_emb_code is_line_terminator_def)
qed

text \<open>
  C4, amended. \<^verbatim>\<open>applySearch\<close> splits the lower-cased, trimmed query at white space, and a
  task is returned if and only if every term either occurs in the lower-cased searchable
  string (text, priority, completion label, formatted creation date) or has at least three
  characters that occur in order within one line of it. With the date rendered as 1/15/2024,
  the query "high shop" matches the task "Buy shopping bags" of priority high and the
  query "high car" does not.
\<close>

theorem applySearch_matches_substring_or_fuzzy:
  assumes "\<forall>term \<in> set (split_ws (trim (toLowerCase query))). \<forall>c \<in> set term. \<not> regex_special c"
  shows "applySearch localeDate taskList query
       = Some (filter
            (\<lambda>task. \<forall>term \<in> set (split_ws (trim (toLowerCase query))).
                       sublist term (searchableText localeDate task)
                       \<or> (3 \<le> length term
                           \<and> (\<exists>l \<in> set (lines_of (searchableText localeDate task)). subseq term l)))
            taskList)
     \<and> applySearch (\<lambda>d. ''1/15/2024'') [bags] ''high shop'' = Some [bags]
     \<and> applySearch (\<lambda>d. ''1/15/2024'') [bags] ''high car'' = Some []"
  using applySearch_plain_terms [OF assms] search_high_shop search_high_car
  by simp

theorem applySearch_matches_substring_or_fuzzy_witness:
  "split_ws (trim (toLowerCase ''Bags HIGH'')) = [''bags'', ''high'']
   \<and> list_all (list_all (\<lambda>c. \<not> regex_special c)) [''bags'', ''high'']
   \<and> applySearch (\<lambda>d. ''1/15/2024'') [bags, milk] ''Bags HIGH'' = Some [bags]"
proof -
  have t: "split_ws (trim (toLowerCase ''Bags HIGH'')) = [''bags'', ''high'']"
    by (simp add: search_eval)
  have m: "searchableText (\<lambda>d. ''1/15/2024'') milk = ''buy milk low active 1/15/2024''"
    by (simp add: searchableText_def milk_def toLowerCase_def lower_char_def char_of_def bit_0 Let_def)
  have h: "\<forall>term \<in> set (split_ws (trim (toLowerCase ''Bags HIGH''))). \<forall>c \<in> set term. \<not> regex_special c"
    by (simp add: t regex_special_def)
  from applySearch_matches_substring_or_fuzzy [OF h, of "\<lambda>d. ''1/15/2024''" "[bags, milk]"]
  have "applySearch (\<lambda>d. ''1/15/2024'') [bags, milk] ''Bags HIGH''
       = Some (filter
            (\<lambda>task. \<forall>term \<in> set [''bags'', ''high''].
                       sublist term (searchableText (\<lambda>d. ''1/15/2024'') task)
                       \<or> (3 \<le> length term
                           \<and> (\<exists>l \<in> set (lines_of (searchableText (\<lambda>d. ''1/15/2024'') task)). subseq term l)))
            [bags, milk])"
    unfolding t by simp
  then have "applySearch (\<lambda>d. ''1/15/2024'') [bags, milk] ''Bags HIGH'' = Some [bags]"
    by (simp add: text_bags m sublist_code list_emb_code is_line_terminator_def)
  with t show ?thesis by (simp add: regex_special_def)
qed

lemma terms_bys: "split_ws (trim (toLowerCase ''bys'')) = [''bys'']"
  by (simp add: search_eval)

text \<open>
  C4, as stated, fails: the query "bys" returns the task "Buy shopping bags" although
  "bys" does not occur in its searchable string.
\<close>

theorem applySearch_fuzzy_match_without_occurrence:
  "applySearch (\<lambda>d. ''1/15/2024'') [bags] ''bys'' = Some [bags]
   \<and> \<not> sublist ''bys'' (searchableText (\<lambda>d. ''1/15/2024'') bags)"
  unfolding applySearch_def Let_def terms_bys
  by (simp add: text_bags term_found_def fuzzyMatch_def regex_special_def sublist_code list_emb_code
      is_line_terminator_def)

text \<open>\<^verbatim>\<open>getTasksByCriteria\<close> looks for the whole query, as one string, in the text only.\<close>

lemma getTasksByCriteria_is_one_substring:
  "getTasksByCriteria zs_ok (stored [bags]) [(''search'', JStr ''high shop'')] = Inr []
   \<and> getTasksByCriteria zs_ok (stored [bags]) [(''search'', JStr ''Shopping B'')] = Inr [bags]"
  by (simp add: getTasksByCriteria_def criteria_match_def getTasks_def zs_ok_def stored_def
      getItem_def empty_store_def get_valid_def bags_def toLowerCase_def lower_char_def
      char_of_def bit_0 Let_def sublist_code)

end
